theory Spec2Isabelle
  imports Main "HOL-Library.Sublist"
begin

unbundle bit_operations_syntax

section \<open>JavaScript containers\<close>

text \<open>
  A JavaScript \<open>Map\<close> iterates in insertion order: \<open>set\<close> on a key that is present
  replaces the value in place, \<open>set\<close> on a new key appends, \<open>delete\<close> removes the entry.
  It is modelled as an association list. A \<open>Set\<close> is the list of its members in
  insertion order.
\<close>

fun map_get :: "('k \<times> 'v) list \<Rightarrow> 'k \<Rightarrow> 'v option" where
  "map_get [] k = None"
| "map_get ((k', v) # m) k = (if k' = k then Some v else map_get m k)"

fun map_set :: "'k \<Rightarrow> 'v \<Rightarrow> ('k \<times> 'v) list \<Rightarrow> ('k \<times> 'v) list" where
  "map_set k v [] = [(k, v)]"
| "map_set k v ((k', v') # m) = (if k' = k then (k, v) # m else (k', v') # map_set k v m)"

definition map_delete :: "'k \<Rightarrow> ('k \<times> 'v) list \<Rightarrow> ('k \<times> 'v) list" where
  "map_delete k m = filter (\<lambda>e. fst e \<noteq> k) m"

definition map_values :: "('k \<times> 'v) list \<Rightarrow> 'v list" where
  "map_values m = map snd m"

definition set_add :: "'a \<Rightarrow> 'a list \<Rightarrow> 'a list" where
  "set_add x xs = (if x \<in> set xs then xs else xs @ [x])"

section \<open>Size presets\<close>

text \<open>
  A JavaScript string is a sequence of UTF-16 code units. Where the source looks at
  single characters beyond ASCII, as the regular expression \<open>/\s+/\<close> does, strings are
  lists of code units; \<open>js\<close> turns an ASCII literal into one.
\<close>

type_synonym jsstring = "nat list"

definition js :: "string \<Rightarrow> jsstring" where
  "js s = map of_char s"

text \<open>
  The class \<open>\s\<close>: the white space and line terminators of ECMAScript, that is tab,
  line feed, vertical tab, form feed, carriage return, space, U+00A0, U+1680,
  U+2000 to U+200A, U+2028, U+2029, U+202F, U+205F, U+3000 and U+FEFF.
\<close>

definition is_space :: "nat \<Rightarrow> bool" where
  "is_space c \<longleftrightarrow>
     c \<in> {0x09, 0x0A, 0x0B, 0x0C, 0x0D, 0x20, 0xA0, 0x1680, 0x2028, 0x2029, 0x202F, 0x205F,
           0x3000, 0xFEFF} \<or>
     (0x2000 \<le> c \<and> c \<le> 0x200A)"

text \<open>
  \<open>String.prototype.split(/\s+/)\<close>: the string is cut at every maximal run of white
  space; a string that starts or ends with white space gives an empty first or last
  token, and the empty string gives one empty token.
\<close>

function split_ws :: "jsstring \<Rightarrow> jsstring list" where
  "split_ws [] = [[]]"
| "split_ws (c # cs) =
     (if is_space c then [] # split_ws (dropWhile is_space cs)
      else (case split_ws cs of [] \<Rightarrow> [[c]] | t # ts \<Rightarrow> (c # t) # ts))"
  by pat_completeness auto
termination
  by (relation "measure length") (auto simp: less_Suc_eq_le length_dropWhile_le)

record SizePreset =
  height :: jsstring
  name :: jsstring
  width :: jsstring

text \<open>The body of the \<open>for (const size of sizeMeta)\<close> loop of \<open>getSizePresets\<close>.\<close>

definition size_line ::
    "jsstring \<Rightarrow> (jsstring \<times> SizePreset) list \<Rightarrow> (jsstring \<times> SizePreset) list" where
  "size_line ln sizes =
     (case split_ws ln of
        [a0, a1, a2] \<Rightarrow> map_set a0 \<lparr>height = a2, name = a0, width = a1\<rparr> sizes
      | [a0, a1] \<Rightarrow> (if a1 = js ''false'' then map_delete a0 sizes else sizes)
      | _ \<Rightarrow> sizes)"

text \<open>
  \<open>getSizePresets\<close>, from the size metadata of the selected theme onwards: the argument
  is what \<open>themeSet.getThemeMeta(theme, 'size')\<close> returned (\<open>None\<close> for \<open>undefined\<close>,
  which the source replaces by the empty list). The theme set itself belongs to the
  rendering engine.
\<close>

definition getSizePresets :: "jsstring list option \<Rightarrow> SizePreset list" where
  "getSizePresets meta =
     (let sizeMeta = (case meta of None \<Rightarrow> [] | Some ls \<Rightarrow> ls)
      in map_values (fold size_line sizeMeta []))"

text \<open>A line defines the preset of a name, removes it, or does not concern the name.\<close>

definition defines_preset :: "jsstring \<Rightarrow> jsstring \<Rightarrow> bool" where
  "defines_preset ln n \<longleftrightarrow> (case split_ws ln of [a0, a1, a2] \<Rightarrow> a0 = n | _ \<Rightarrow> False)"

definition removes_preset :: "jsstring \<Rightarrow> jsstring \<Rightarrow> bool" where
  "removes_preset ln n \<longleftrightarrow>
     (case split_ws ln of [a0, a1] \<Rightarrow> a0 = n \<and> a1 = js ''false'' | _ \<Rightarrow> False)"

definition preset_of :: "jsstring \<Rightarrow> SizePreset" where
  "preset_of ln =
     (case split_ws ln of
        [a0, a1, a2] \<Rightarrow> \<lparr>height = a2, name = a0, width = a1\<rparr>
      | _ \<Rightarrow> \<lparr>height = [], name = [], width = []\<rparr>)"

definition preset_for :: "SizePreset list \<Rightarrow> jsstring \<Rightarrow> SizePreset option" where
  "preset_for ps n = find (\<lambda>p. name p = n) ps"

text \<open>Every entry of the \<open>sizes\<close> map is stored under the name it carries.\<close>

definition keyed :: "(jsstring \<times> SizePreset) list \<Rightarrow> bool" where
  "keyed m \<longleftrightarrow> (\<forall>(k, p) \<in> set m. name p = k)"

section \<open>Workspace proxy server\<close>

text \<open>
  The components of a \<open>vscode.Uri\<close>, and the three components of the WHATWG \<open>URL\<close>
  that the request handler reads.
\<close>

record uri =
  scheme :: string
  authority :: string
  path :: string
  query :: string
  fragment :: string

record URL =
  pathname :: string
  search :: string
  hash :: string

text \<open>
  \<open>vscode.FileStat\<close>; \<open>ftype\<close> is its \<open>type\<close>, a bit mask of \<open>FileType\<close>
  (\<open>File = 1\<close>, \<open>Directory = 2\<close>, \<open>SymbolicLink = 64\<close>), \<open>fsize\<close> its \<open>size\<close>.
\<close>

record FileStat =
  ftype :: nat
  fsize :: nat
  mtime :: nat

definition FileType_Directory :: nat where
  "FileType_Directory = 2"

datatype fs_error = FileNotFound | NoPermissions | Unavailable | OtherError string

text \<open>\<open>workspace.fs\<close>: a rejected promise is \<open>Inl\<close>, file contents are bytes.\<close>

record workspace_fs =
  stat :: "uri \<Rightarrow> fs_error + FileStat"
  readFile :: "uri \<Rightarrow> fs_error + nat list"

text \<open>
  The response is the list of calls the handler makes on \<open>res\<close>, in order. A header value
  is \<open>size.toString()\<close> or \<open>new Date(mtime).toUTCString()\<close>.
\<close>

datatype header_value = NumberString nat | UTCString nat

datatype body = Buffer "nat list" | Text string

datatype res_call = Type string | Header string header_value | Status nat | Send body

definition not_found :: "res_call list" where
  "not_found = [Status 404, Send (Text ''Not found'')]"

text \<open>
  \<open>workspaceFolder.uri.with({ fragment, path, query })\<close>. \<open>Uri.with\<close> builds a new
  \<open>Uri\<close>, whose constructor puts a slash before a path without one when the scheme is
  \<open>file\<close>, \<open>http\<close> or \<open>https\<close>, and then validates the result: it throws when the
  path is not empty and either there is an authority and the path does not begin with a
  slash, or there is no authority and the path begins with two slashes. \<open>None\<close> is the
  throw. The scheme is that of the folder, which was validated when the folder's \<open>Uri\<close>
  was built.
\<close>

definition referenceResolution :: "string \<Rightarrow> string \<Rightarrow> string" where
  "referenceResolution sch p =
     (if sch = ''https'' \<or> sch = ''http'' \<or> sch = ''file''
      then (if p = [] then ''/'' else if hd p \<noteq> CHR ''/'' then CHR ''/'' # p else p)
      else p)"

definition Uri_with :: "uri \<Rightarrow> URL \<Rightarrow> uri option" where
  "Uri_with folderUri url =
     (let p = referenceResolution (scheme folderUri) (pathname url)
      in if p \<noteq> [] \<and>
            (if authority folderUri \<noteq> [] then hd p \<noteq> CHR ''/'' else prefix ''//'' p)
         then None
         else Some (folderUri\<lparr>fragment := hash url, path := p, query := search url\<rparr>))"

text \<open>
  The handler of \<open>express().get('*', ...)\<close>. \<open>extname\<close> is \<open>path.extname\<close> of Node;
  the URL is \<open>None\<close> when \<open>new URL(req.url, ...)\<close> throws. The URL and the \<open>Uri\<close> are
  built before the \<open>try\<close> block, so when one of the two throws nothing is called on
  \<open>res\<close>. In \<open>res.status(200).send(Buffer.from(await ...readFile(...)))\<close> the call
  \<open>status(200)\<close> is evaluated before the argument of \<open>send\<close>, so a failing read leaves
  it behind.
\<close>

definition get_handler ::
    "(string \<Rightarrow> string) \<Rightarrow> workspace_fs \<Rightarrow> uri \<Rightarrow> URL option \<Rightarrow> res_call list" where
  "get_handler extname fs folderUri req_url =
     (case req_url of
        None \<Rightarrow> []
      | Some url \<Rightarrow>
          (case Uri_with folderUri url of
             None \<Rightarrow> []
           | Some vscodeUri \<Rightarrow>
               (let urlExt = extname (pathname url);
                    res1 = (if urlExt \<noteq> [] then [Type urlExt] else [])
                in case stat fs vscodeUri of
                     Inl e \<Rightarrow> res1 @ not_found
                   | Inr fileStat \<Rightarrow>
                       (let res2 = res1 @ [Header ''Content-Length'' (NumberString (fsize fileStat)),
                                           Header ''Last-Modified'' (UTCString (mtime fileStat))]
                        in if ftype fileStat AND FileType_Directory = 0
                           then (case readFile fs vscodeUri of
                                   Inl e \<Rightarrow> res2 @ [Status 200] @ not_found
                                 | Inr content \<Rightarrow> res2 @ [Status 200, Send (Buffer content)])
                           else res2 @ not_found))))"

text \<open>What a response amounts to: the last status set, the body sent, the headers set.\<close>

fun status_of :: "res_call list \<Rightarrow> nat option" where
  "status_of [] = None"
| "status_of (c # cs) =
     (case status_of cs of Some n \<Rightarrow> Some n
      | None \<Rightarrow> (case c of Status n \<Rightarrow> Some n | _ \<Rightarrow> None))"

fun body_of :: "res_call list \<Rightarrow> body option" where
  "body_of [] = None"
| "body_of (Send b # cs) = Some b"
| "body_of (c # cs) = body_of cs"

fun header_of :: "res_call list \<Rightarrow> string \<Rightarrow> header_value option" where
  "header_of [] h = None"
| "header_of (c # cs) h =
     (case header_of cs h of Some v \<Rightarrow> Some v
      | None \<Rightarrow> (case c of Header h' v \<Rightarrow> (if h' = h then Some v else None) | _ \<Rightarrow> None))"



text \<open>The calls that set the content type from the extension of the path.\<close>

definition type_calls :: "(string \<Rightarrow> string) \<Rightarrow> URL \<Rightarrow> res_call list" where
  "type_calls extname url = (if extname (pathname url) \<noteq> [] then [Type (extname (pathname url))] else [])"

subsection \<open>A sample workspace\<close>

definition demo_fs :: workspace_fs where
  "demo_fs = \<lparr>stat = (\<lambda>u. if path u = ''/theme.css'' then Inr \<lparr>ftype = 1, fsize = 3, mtime = 1000\<rparr>
                         else if path u = ''/assets'' then Inr \<lparr>ftype = 2, fsize = 4096, mtime = 2000\<rparr>
                         else Inl FileNotFound),
              readFile = (\<lambda>u. if path u = ''/theme.css'' then Inr [104, 49, 123] else Inl FileNotFound)\<rparr>"


definition demo_folder :: uri where
  "demo_folder = \<lparr>scheme = ''file'', authority = [], path = ''/workspace/project'', query = [], fragment = []\<rparr>"

definition demo_extname :: "string \<Rightarrow> string" where
  "demo_extname p = (if p = ''/theme.css'' then ''.css'' else [])"

definition theme_css :: URL where
  "theme_css = \<lparr>pathname = ''/theme.css'', search = [], hash = []\<rparr>"

definition missing_css :: URL where
  "missing_css = \<lparr>pathname = ''/missing.css'', search = [], hash = []\<rparr>"

definition assets_dir :: URL where
  "assets_dir = \<lparr>pathname = ''/assets'', search = [], hash = []\<rparr>"

definition demo_uri :: "string \<Rightarrow> uri" where
  "demo_uri p = \<lparr>scheme = ''file'', authority = [], path = p, query = [], fragment = []\<rparr>"


section \<open>Paths\<close>

text \<open>
  \<open>path.resolve\<close> and \<open>path.relative\<close> belong to Node, not to the extension, and the
  extension imports the \<open>path\<close> module of the platform it runs on: the POSIX one on
  Linux and macOS, the win32 one on Windows. Both are modelled, on the segments of a
  path. What they read of the process is its working directory \<open>process.cwd()\<close> and, on
  Windows, the environment variables that hold the working directory of a drive.
\<close>

record process =
  cwd :: string
  env_var :: "string \<Rightarrow> string option"

text \<open>\<open>String.prototype.startsWith\<close>.\<close>

definition startsWith :: "string \<Rightarrow> string \<Rightarrow> bool" where
  "startsWith s pre = prefix pre s"

text \<open>
  \<open>normalizeString\<close>, shared by both platforms: empty segments and \<open>.\<close> are skipped and
  \<open>..\<close> removes the segment before it; above the root of an absolute path \<open>..\<close> is
  dropped, in a relative path it is kept.
\<close>

fun split_on :: "char \<Rightarrow> string \<Rightarrow> string list" where
  "split_on c [] = [[]]"
| "split_on c (x # xs) =
     (if x = c then [] # split_on c xs
      else (case split_on c xs of [] \<Rightarrow> [[x]] | t # ts \<Rightarrow> (x # t) # ts))"

fun normalizeString :: "bool \<Rightarrow> string list \<Rightarrow> string list \<Rightarrow> string list" where
  "normalizeString allowAboveRoot res [] = res"
| "normalizeString allowAboveRoot res (s # ss) =
     (if s = ''.'' then normalizeString allowAboveRoot res ss
      else if s = ''..'' then
        (if res \<noteq> [] \<and> last res \<noteq> ''..'' then normalizeString allowAboveRoot (butlast res) ss
         else if allowAboveRoot then normalizeString allowAboveRoot (res @ [''..'']) ss
         else normalizeString allowAboveRoot res ss)
      else normalizeString allowAboveRoot (res @ [s]) ss)"

subsection \<open>The POSIX module\<close>

text \<open>
  A path is cut into its segments at the slashes. \<open>path.relative\<close> resolves both paths,
  drops the leading segments they share, and returns one \<open>..\<close> for every segment left
  of \<open>from\<close>, followed by the segments left of \<open>to\<close>.
\<close>

definition segments :: "string \<Rightarrow> string list" where
  "segments p = filter (\<lambda>s. s \<noteq> []) (split_on CHR ''/'' p)"

fun join_path :: "string list \<Rightarrow> string" where
  "join_path [] = []"
| "join_path [s] = s"
| "join_path (s # ss) = s @ CHR ''/'' # join_path ss"

text \<open>
  The loop of \<open>path.resolve\<close> runs over its arguments from the last to the first and
  then over the working directory, prepends every non-empty one and stops after the
  first absolute one.
\<close>

fun resolve_join :: "string list \<Rightarrow> string \<Rightarrow> string \<times> bool" where
  "resolve_join [] resolvedPath = (resolvedPath, False)"
| "resolve_join (p # ps) resolvedPath =
     (if p = [] then resolve_join ps resolvedPath
      else if hd p = CHR ''/'' then (p @ CHR ''/'' # resolvedPath, True)
      else resolve_join ps (p @ CHR ''/'' # resolvedPath))"

definition posix_resolve :: "process \<Rightarrow> string list \<Rightarrow> string" where
  "posix_resolve pr args =
     (case resolve_join (rev args @ [cwd pr]) [] of
        (resolvedPath, resolvedAbsolute) \<Rightarrow>
          (let segs = normalizeString (\<not> resolvedAbsolute) [] (segments resolvedPath)
           in if resolvedAbsolute then CHR ''/'' # join_path segs
              else if segs = [] then ''.'' else join_path segs))"

definition posix_relative :: "process \<Rightarrow> string \<Rightarrow> string \<Rightarrow> string" where
  "posix_relative pr from to =
     (if from = to then []
      else
        (let from' = posix_resolve pr [from]; to' = posix_resolve pr [to]
         in if from' = to' then []
            else
              (let fs = segments from'; ts = segments to';
                   n = length (longest_common_prefix fs ts)
               in join_path (replicate (length fs - n) ''..'' @ drop n ts))))"

text \<open>
  A path lies within a base directory when the segments of the resolved base are the
  first segments of the resolved path: it is the base or one of its descendants.
\<close>

definition posix_within :: "process \<Rightarrow> string \<Rightarrow> string \<Rightarrow> bool" where
  "posix_within pr base p = prefix (segments (posix_resolve pr [base])) (segments (posix_resolve pr [p]))"

subsection \<open>The win32 module\<close>

text \<open>
  On Windows a path is cut at slashes and at backslashes, and it may start with a
  device: a drive (a letter and a colon) or a UNC root (two separators, a server, a
  share). \<open>win\<close> replaces the slashes of a string by backslashes; it is also the way
  Windows paths are written below, \<open>win ''c:/workspace/project''\<close> for the path with
  backslashes. \<open>toLowerCase\<close> is \<open>String.prototype.toLowerCase\<close> on the characters a
  \<open>string\<close> has, those of Latin-1.
\<close>

definition backslash :: char where
  "backslash = CHR 0x5C"

definition win :: "string \<Rightarrow> string" where
  "win p = map (\<lambda>c. if c = CHR ''/'' then backslash else c) p"

definition isPathSeparator :: "char \<Rightarrow> bool" where
  "isPathSeparator c = (c = CHR ''/'' \<or> c = backslash)"

definition isWindowsDeviceRoot :: "char \<Rightarrow> bool" where
  "isWindowsDeviceRoot c =
     ((65 \<le> (of_char c :: nat) \<and> (of_char c :: nat) \<le> 90) \<or>
      (97 \<le> (of_char c :: nat) \<and> (of_char c :: nat) \<le> 122))"

definition toLowerCase :: "string \<Rightarrow> string" where
  "toLowerCase s =
     map (\<lambda>c. if (65 \<le> (of_char c :: nat) \<and> (of_char c :: nat) \<le> 90) \<or>
                  (192 \<le> (of_char c :: nat) \<and> (of_char c :: nat) \<le> 222 \<and> (of_char c :: nat) \<noteq> 215)
               then (case c of Char b0 b1 b2 b3 b4 b5 b6 b7 \<Rightarrow> Char b0 b1 b2 b3 b4 True b6 b7)
               else c) s"

definition win32_segments :: "string \<Rightarrow> string list" where
  "win32_segments p = filter (\<lambda>s. s \<noteq> []) (split_on backslash (win p))"

fun win32_join :: "string list \<Rightarrow> string" where
  "win32_join [] = []"
| "win32_join [s] = s"
| "win32_join (s # ss) = s @ backslash # win32_join ss"

text \<open>
  The root of one argument of \<open>path.resolve\<close>: its device, the index \<open>rootEnd\<close> where
  its tail starts, and whether it is absolute. A path that starts with two separators
  is a UNC root when a server, separators and a share follow; a path that starts with a
  letter and a colon has that drive as its device, and is absolute when a separator
  follows the colon.
\<close>

definition win32_root :: "string \<Rightarrow> string \<times> nat \<times> bool" where
  "win32_root p =
     (let len = length p
      in if len = 0 then ([], 0, False)
         else if len = 1 then (if isPathSeparator (p ! 0) then ([], 1, True) else ([], 0, False))
         else if isPathSeparator (p ! 0) then
           (if isPathSeparator (p ! 1) then
              (let j = 2 + length (takeWhile (\<lambda>c. \<not> isPathSeparator c) (drop 2 p))
               in if j < len \<and> j \<noteq> 2 then
                    (let firstPart = take (j - 2) (drop 2 p);
                         j' = j + length (takeWhile isPathSeparator (drop j p))
                     in if j' < len \<and> j' \<noteq> j then
                          (let j'' = j' + length (takeWhile (\<lambda>c. \<not> isPathSeparator c) (drop j' p))
                           in if j'' = len \<or> j'' \<noteq> j' then
                                (backslash # backslash # firstPart @ backslash # take (j'' - j') (drop j' p),
                                 j'', True)
                              else ([], 0, True))
                        else ([], 0, True))
                  else ([], 0, True))
            else ([], 1, True))
         else if isWindowsDeviceRoot (p ! 0) \<and> p ! 1 = CHR '':'' then
           (if len > 2 \<and> isPathSeparator (p ! 2) then (take 2 p, 3, True)
            else (take 2 p, 2, False))
         else ([], 0, False))"

text \<open>
  The last round of the loop of \<open>path.resolve\<close> takes the working directory: that of
  the process when no device is resolved yet, else that of the resolved drive (the
  environment variable named \<open>=\<close> and the drive, or \<open>process.cwd()\<close> when it is unset or
  empty), replaced by the root of the drive when it is on another drive.
\<close>

definition drive_cwd :: "process \<Rightarrow> string \<Rightarrow> string" where
  "drive_cwd pr resolvedDevice =
     (if resolvedDevice = [] then cwd pr
      else
        (let p = (case env_var pr (CHR ''='' # resolvedDevice) of
                    None \<Rightarrow> cwd pr
                  | Some v \<Rightarrow> if v = [] then cwd pr else v)
         in if toLowerCase (take 2 p) \<noteq> toLowerCase resolvedDevice \<and>
               length p > 2 \<and> p ! 2 = backslash
            then resolvedDevice @ [backslash] else p))"

text \<open>
  The loop of \<open>path.resolve\<close>, over the arguments from the last to the first (\<open>Some\<close>)
  and then the working directory (\<open>None\<close>). An empty argument is skipped, and so is an
  argument on another device than the resolved one; the first device met is the
  resolved one; the tail of every argument is prepended until an absolute one is met,
  and the loop stops once the path is absolute and has a device.
\<close>

fun win32_resolve_loop ::
  "process \<Rightarrow> string option list \<Rightarrow> string \<Rightarrow> string \<Rightarrow> bool \<Rightarrow> string \<times> string \<times> bool" where
  "win32_resolve_loop pr [] resolvedDevice resolvedTail resolvedAbsolute =
     (resolvedDevice, resolvedTail, resolvedAbsolute)"
| "win32_resolve_loop pr (a # as) resolvedDevice resolvedTail resolvedAbsolute =
     (if a = Some [] then win32_resolve_loop pr as resolvedDevice resolvedTail resolvedAbsolute
      else
        (let p = (case a of Some arg \<Rightarrow> arg | None \<Rightarrow> drive_cwd pr resolvedDevice);
             device = fst (win32_root p);
             rootEnd = fst (snd (win32_root p));
             isAbsolute = snd (snd (win32_root p))
         in if device \<noteq> [] \<and> resolvedDevice \<noteq> [] \<and> toLowerCase device \<noteq> toLowerCase resolvedDevice
            then win32_resolve_loop pr as resolvedDevice resolvedTail resolvedAbsolute
            else
              (let resolvedDevice' = (if device \<noteq> [] \<and> resolvedDevice = [] then device else resolvedDevice)
               in if resolvedAbsolute then
                    (if resolvedDevice' \<noteq> [] then (resolvedDevice', resolvedTail, resolvedAbsolute)
                     else win32_resolve_loop pr as resolvedDevice' resolvedTail resolvedAbsolute)
                  else
                    (let resolvedTail' = drop rootEnd p @ backslash # resolvedTail
                     in if isAbsolute \<and> resolvedDevice' \<noteq> [] then (resolvedDevice', resolvedTail', isAbsolute)
                        else win32_resolve_loop pr as resolvedDevice' resolvedTail' isAbsolute))))"

definition win32_resolve :: "process \<Rightarrow> string list \<Rightarrow> string" where
  "win32_resolve pr args =
     (case win32_resolve_loop pr (map Some (rev args) @ [None]) [] [] False of
        (resolvedDevice, resolvedTail, resolvedAbsolute) \<Rightarrow>
          (let segs = win32_join (normalizeString (\<not> resolvedAbsolute) [] (win32_segments resolvedTail))
           in if resolvedAbsolute then resolvedDevice @ backslash # segs
              else if resolvedDevice @ segs = [] then ''.'' else resolvedDevice @ segs))"

text \<open>
  \<open>path.relative\<close> resolves both paths and compares them in lower case, from the root
  on. When they differ before the first separator they share, that is in their first
  segment (the drive, or the server of a UNC root), it returns the resolved \<open>to\<close>
  itself, an absolute path. Otherwise it returns one \<open>..\<close> for every segment left of
  \<open>from\<close>, followed by the segments left of \<open>to\<close>.
\<close>

definition win32_relative :: "process \<Rightarrow> string \<Rightarrow> string \<Rightarrow> string" where
  "win32_relative pr from to =
     (if from = to then []
      else
        (let fromOrig = win32_resolve pr [from]; toOrig = win32_resolve pr [to]
         in if fromOrig = toOrig then []
            else if toLowerCase fromOrig = toLowerCase toOrig then []
            else
              (let fs = win32_segments (toLowerCase fromOrig); ts = win32_segments (toLowerCase toOrig);
                   n = length (longest_common_prefix fs ts)
               in if n = 0 then toOrig
                  else win32_join (replicate (length fs - n) ''..'' @ drop n (win32_segments toOrig)))))"

definition win32_within :: "process \<Rightarrow> string \<Rightarrow> string \<Rightarrow> bool" where
  "win32_within pr base p =
     prefix (win32_segments (toLowerCase (win32_resolve pr [base])))
            (win32_segments (toLowerCase (win32_resolve pr [p])))"

section \<open>Themes\<close>

datatype ThemeType = File | Remote | VirtualFS

text \<open>
  A \<open>Disposable\<close> returned by subscribing to an event is the number of the subscription.
  The optional fields of \<open>Theme\<close> are options; \<open>themeType\<close> is the field \<open>type\<close>.
\<close>

record Theme =
  css :: string
  onDidChange :: "nat option"
  onDidDelete :: "nat option"
  path :: string
  registered :: "bool option"
  themeType :: ThemeType

definition isRemotePath :: "string \<Rightarrow> bool" where
  "isRemotePath p \<longleftrightarrow> startsWith p ''https:'' \<or> startsWith p ''http:''"

text \<open>
  \<open>isVirtualPath\<close> tests \<open>/^[a-z0-9.+-]+:\/\/\b/\<close>: a non-empty run of scheme
  characters, then \<open>://\<close>, then a word boundary, which after a slash means that a word
  character follows.
\<close>

definition is_scheme_char :: "char \<Rightarrow> bool" where
  "is_scheme_char c \<longleftrightarrow>
     (let n = (of_char c :: nat)
      in (97 \<le> n \<and> n \<le> 122) \<or> (48 \<le> n \<and> n \<le> 57) \<or> c = CHR ''.'' \<or> c = CHR ''+'' \<or> c = CHR ''-'')"

definition is_word_char :: "char \<Rightarrow> bool" where
  "is_word_char c \<longleftrightarrow>
     (let n = (of_char c :: nat)
      in (97 \<le> n \<and> n \<le> 122) \<or> (65 \<le> n \<and> n \<le> 90) \<or> (48 \<le> n \<and> n \<le> 57) \<or> c = CHR ''_'')"

definition isVirtualPath :: "string \<Rightarrow> bool" where
  "isVirtualPath p \<longleftrightarrow>
     takeWhile is_scheme_char p \<noteq> [] \<and>
     (case dropWhile is_scheme_char p of
        c1 # c2 # c3 # c4 # _ \<Rightarrow> c1 = CHR '':'' \<and> c2 = CHR ''/'' \<and> c3 = CHR ''/'' \<and> is_word_char c4
      | _ \<Rightarrow> False)"

subsection \<open>Normalising the configured references\<close>

text \<open>
  What the class takes from its surroundings: \<open>resolve\<close> and \<open>relative\<close> of the \<open>path\<close>
  module of the platform, the \<open>fsPath\<close> of a \<open>Uri\<close>, the \<open>pathname\<close> of \<open>new URL(p, 'dummy://dummy/')\<close> (\<open>None\<close>
  when the constructor throws), the string of \<open>rootUri.with({ path })\<close> (\<open>None\<close> when
  \<open>with\<close> throws), and whether a watcher pattern can be derived from a virtual path
  (the \<open>try\<close> block of \<open>watcherPattern\<close> does not throw).
\<close>

record env =
  path_resolve :: "string list \<Rightarrow> string"
  path_relative :: "string \<Rightarrow> string \<Rightarrow> string"
  fsPath :: "uri \<Rightarrow> string"
  URL_pathname :: "string \<Rightarrow> string option"
  with_path_toString :: "uri \<Rightarrow> string \<Rightarrow> string option"
  virtual_pattern :: "string \<Rightarrow> bool"

text \<open>An entry of the \<open>themes\<close> setting: a string or any other JSON value.\<close>

datatype conf_entry = Str string | NotString

text \<open>The body of the loop of \<open>normalizePaths\<close>.\<close>

definition normalize_entry :: "env \<Rightarrow> uri option \<Rightarrow> conf_entry \<Rightarrow> string list \<Rightarrow> string list" where
  "normalize_entry e rootUri entry normalizedPaths =
     (case entry of
        NotString \<Rightarrow> normalizedPaths
      | Str p \<Rightarrow>
          if isRemotePath p then set_add p normalizedPaths
          else
            (case rootUri of
               None \<Rightarrow> normalizedPaths
             | Some root \<Rightarrow>
                 if scheme root = ''file'' then
                   (let resolvedPath = path_resolve e [fsPath e root, p]
                    in if \<not> startsWith (path_relative e (fsPath e root) resolvedPath) ''..''
                       then set_add resolvedPath normalizedPaths
                       else normalizedPaths)
                 else
                   (case URL_pathname e p of
                      None \<Rightarrow> normalizedPaths
                    | Some relativePath \<Rightarrow>
                        (case with_path_toString e root (uri.path root @ relativePath) of
                           None \<Rightarrow> normalizedPaths
                         | Some k \<Rightarrow> set_add k normalizedPaths))))"

definition normalizePaths :: "env \<Rightarrow> conf_entry list \<Rightarrow> uri option \<Rightarrow> string list" where
  "normalizePaths e paths rootUri = fold (normalize_entry e rootUri) paths []"

text \<open>
  \<open>getPathsFromConf\<close>; the setting is \<open>None\<close> when \<open>markdown.marp.themes\<close> is not an
  array.
\<close>

definition getPathsFromConf :: "env \<Rightarrow> conf_entry list option \<Rightarrow> uri option \<Rightarrow> string list" where
  "getPathsFromConf e themes rootUri =
     (case themes of
        Some ts \<Rightarrow> if length ts > 0 then normalizePaths e ts rootUri else []
      | None \<Rightarrow> [])"

subsection \<open>The cache of observed themes\<close>

text \<open>
  A listener is a subscription to \<open>onDidChange\<close> or \<open>onDidDelete\<close> of the file system
  watcher created for a theme: \<open>lid\<close> is its \<open>Disposable\<close>, \<open>watched\<close> the theme path
  whose directory and base name make the pattern of the watcher.
\<close>

datatype listener_kind = DidChange | DidDelete

record listener =
  lid :: nat
  kind :: listener_kind
  watched :: string

text \<open>
  \<open>registerTheme\<close> is asynchronous. It runs without interruption up to the \<open>await\<close> of
  the content and again from there to its end. A call waiting for its content is a
  pending call: \<open>promise\<close> numbers the promise the call returned, \<open>caller\<close> says who awaits
  it: \<open>loadStyles\<close> hands the promise out, the change handler goes on to refresh the
  preview.
\<close>

datatype caller = FromLoadStyles | FromChangeHandler

record pending =
  promise :: nat
  key :: string
  caller :: caller

datatype fetch_error = ReadFailed | HttpStatus nat | Aborted | NetworkError

text \<open>
  The state of a \<open>Themes\<close> object and of what it touches: the map \<open>observedThemes\<close>, the
  listeners that have not been disposed, the calls of \<open>registerTheme\<close> waiting for
  content, the theme paths whose content was requested (one entry per request), the
  promises that are settled, with their outcome, and the number of times the command
  \<open>markdown.preview.refresh\<close> was executed.
\<close>

record themes =
  observedThemes :: "(string \<times> Theme) list"
  listeners :: "listener list"
  nextDisposable :: nat
  inFlight :: "pending list"
  nextPromise :: nat
  fetched :: "string list"
  settled :: "(nat \<times> (fetch_error + Theme)) list"
  refreshes :: nat

definition new_Themes :: themes where
  "new_Themes = \<lparr>observedThemes = [], listeners = [], nextDisposable = 0, inFlight = [],
     nextPromise = 0, fetched = [], settled = [], refreshes = 0\<rparr>"

text \<open>
  A promise of \<open>registerTheme\<close> is settled. In the change handler the command follows
  the \<open>await\<close>, so it runs when the promise is fulfilled and not when it is rejected.
\<close>

definition settle :: "nat \<Rightarrow> fetch_error + Theme \<Rightarrow> caller \<Rightarrow> themes \<Rightarrow> themes" where
  "settle p outcome c s =
     (let s' = s\<lparr>settled := settled s @ [(p, outcome)]\<rparr>
      in case outcome of
           Inr theme \<Rightarrow> (if c = FromChangeHandler then s'\<lparr>refreshes := Suc (refreshes s')\<rparr> else s')
         | Inl err \<Rightarrow> s')"

text \<open>The value of \<open>type\<close> in \<open>registerTheme\<close>.\<close>

definition classify :: "string \<Rightarrow> ThemeType" where
  "classify themePath =
     (if isRemotePath themePath then Remote
      else if isVirtualPath themePath then VirtualFS
      else File)"

text \<open>
  \<open>registerTheme\<close> up to the \<open>await\<close>: a theme found in the map is returned as it is
  stored; otherwise the content is requested and the call waits.
\<close>

definition registerTheme :: "caller \<Rightarrow> string \<Rightarrow> themes \<Rightarrow> themes" where
  "registerTheme c themePath s =
     (let p = nextPromise s; s1 = s\<lparr>nextPromise := Suc p\<rparr>
      in case map_get (observedThemes s) themePath of
           Some theme \<Rightarrow> settle p (Inr theme) c s1
         | None \<Rightarrow>
             s1\<lparr>fetched := fetched s1 @ [themePath],
                inFlight := inFlight s1 @ [\<lparr>promise = p, key = themePath, caller = c\<rparr>]\<rparr>)"

text \<open>
  The watcher pattern: the directory and base name of a local file, the same for a
  virtual path when they can be derived, none for a remote theme. The pattern is
  represented by the theme path it is made from.
\<close>

definition watcherPattern :: "env \<Rightarrow> ThemeType \<Rightarrow> string \<Rightarrow> string option" where
  "watcherPattern e t themePath =
     (case t of
        File \<Rightarrow> Some themePath
      | VirtualFS \<Rightarrow> (if virtual_pattern e themePath then Some themePath else None)
      | Remote \<Rightarrow> None)"

text \<open>
  \<open>registerTheme\<close> from the \<open>await\<close> on, with the content \<open>css\<close>: the record is built,
  the two listeners are subscribed and assigned to it when there is a pattern, the
  record is stored, and a copy marked \<open>registered\<close> is returned. The type depends on the
  theme path only, so it is computed here.
\<close>

definition registerTheme_resume :: "env \<Rightarrow> pending \<Rightarrow> string \<Rightarrow> themes \<Rightarrow> themes" where
  "registerTheme_resume e t content s =
     (let themePath = key t;
          ty = classify themePath;
          registeredTheme = \<lparr>css = content, onDidChange = None, onDidDelete = None,
             path = themePath, registered = None, themeType = ty\<rparr>
      in case watcherPattern e ty themePath of
           None \<Rightarrow>
             settle (promise t) (Inr (registeredTheme\<lparr>registered := Some True\<rparr>)) (caller t)
               (s\<lparr>observedThemes := map_set themePath registeredTheme (observedThemes s)\<rparr>)
         | Some pat \<Rightarrow>
             (let c = nextDisposable s; d = Suc c;
                  watching = registeredTheme\<lparr>onDidChange := Some c, onDidDelete := Some d\<rparr>
              in settle (promise t) (Inr (watching\<lparr>registered := Some True\<rparr>)) (caller t)
                   (s\<lparr>nextDisposable := Suc d,
                      listeners := listeners s @
                        [\<lparr>lid = c, kind = DidChange, watched = pat\<rparr>,
                         \<lparr>lid = d, kind = DidDelete, watched = pat\<rparr>],
                      observedThemes := map_set themePath watching (observedThemes s)\<rparr>)))"

text \<open>
  The content of a pending call arrives (\<open>Inr\<close>) or its request fails (\<open>Inl\<close>, the
  promise is rejected and nothing is stored).
\<close>

definition fetchDone :: "env \<Rightarrow> nat \<Rightarrow> fetch_error + string \<Rightarrow> themes \<Rightarrow> themes" where
  "fetchDone e p result s =
     (case find (\<lambda>t. promise t = p) (inFlight s) of
        None \<Rightarrow> s
      | Some t \<Rightarrow>
          (let s1 = s\<lparr>inFlight := filter (\<lambda>t. promise t \<noteq> p) (inFlight s)\<rparr>
           in case result of
                Inl err \<Rightarrow> settle p (Inl err) (caller t) s1
              | Inr content \<Rightarrow> registerTheme_resume e t content s1))"

definition dispose_listener :: "nat \<Rightarrow> themes \<Rightarrow> themes" where
  "dispose_listener d s = s\<lparr>listeners := filter (\<lambda>l. lid l \<noteq> d) (listeners s)\<rparr>"

text \<open>The two handlers, each up to its first \<open>await\<close>.\<close>

definition onDidChange_handler :: "nat \<Rightarrow> string \<Rightarrow> themes \<Rightarrow> themes" where
  "onDidChange_handler d themePath s =
     (let s1 = dispose_listener d s;
          s2 = s1\<lparr>observedThemes := map_delete themePath (observedThemes s1)\<rparr>
      in registerTheme FromChangeHandler themePath s2)"

definition onDidDelete_handler :: "nat \<Rightarrow> string \<Rightarrow> themes \<Rightarrow> themes" where
  "onDidDelete_handler d themePath s =
     (let s1 = dispose_listener d s
      in s1\<lparr>observedThemes := map_delete themePath (observedThemes s1)\<rparr>)"

definition fire :: "listener \<Rightarrow> themes \<Rightarrow> themes" where
  "fire l s =
     (case kind l of
        DidChange \<Rightarrow> onDidChange_handler (lid l) (watched l) s
      | DidDelete \<Rightarrow> onDidDelete_handler (lid l) (watched l) s)"

text \<open>
  The watched resource of a theme path changes or is deleted: the listeners of that
  kind subscribed for it are called, in the order of their subscription.
\<close>

definition fileChanged :: "string \<Rightarrow> themes \<Rightarrow> themes" where
  "fileChanged f s = fold fire (filter (\<lambda>l. kind l = DidChange \<and> watched l = f) (listeners s)) s"

definition fileDeleted :: "string \<Rightarrow> themes \<Rightarrow> themes" where
  "fileDeleted f s = fold fire (filter (\<lambda>l. kind l = DidDelete \<and> watched l = f) (listeners s)) s"

definition dispose_theme :: "string \<times> Theme \<Rightarrow> themes \<Rightarrow> themes" where
  "dispose_theme entry s =
     (let theme = snd entry;
          s1 = (case onDidChange theme of Some d \<Rightarrow> dispose_listener d s | None \<Rightarrow> s)
      in case onDidDelete theme of Some d \<Rightarrow> dispose_listener d s1 | None \<Rightarrow> s1)"

definition dispose :: "themes \<Rightarrow> themes" where
  "dispose s = (fold dispose_theme (observedThemes s) s)\<lparr>observedThemes := []\<rparr>"

definition loadStyles :: "env \<Rightarrow> conf_entry list option \<Rightarrow> uri option \<Rightarrow> themes \<Rightarrow> themes" where
  "loadStyles e conf rootUri s = fold (registerTheme FromLoadStyles) (getPathsFromConf e conf rootUri) s"

definition getRegisteredStyles :: "env \<Rightarrow> conf_entry list option \<Rightarrow> uri option \<Rightarrow> themes \<Rightarrow> Theme list" where
  "getRegisteredStyles e conf rootUri s =
     List.map_filter (map_get (observedThemes s)) (getPathsFromConf e conf rootUri)"

text \<open>What can happen to a \<open>Themes\<close> object, and a run of such events from a state.\<close>

datatype event =
    LoadStyles "conf_entry list option" "uri option"
  | FetchDone nat "fetch_error + string"
  | FileChanged string
  | FileDeleted string
  | Dispose

fun step :: "env \<Rightarrow> event \<Rightarrow> themes \<Rightarrow> themes" where
  "step e (LoadStyles conf rootUri) s = loadStyles e conf rootUri s"
| "step e (FetchDone p result) s = fetchDone e p result s"
| "step e (FileChanged f) s = fileChanged f s"
| "step e (FileDeleted f) s = fileDeleted f s"
| "step e Dispose s = dispose s"

definition run :: "env \<Rightarrow> event list \<Rightarrow> themes \<Rightarrow> themes" where
  "run e evs s = fold (step e) evs s"

definition lids :: "themes \<Rightarrow> nat set" where
  "lids s = lid ` set (listeners s)"

subsection \<open>Notions for the properties\<close>

text \<open>
  The record that \<open>registerTheme\<close> stores for the key \<open>k\<close> when the content arrives
  in the state \<open>s\<close> (see \<open>resume_observed\<close> below).
\<close>

definition stored_theme :: "env \<Rightarrow> themes \<Rightarrow> string \<Rightarrow> string \<Rightarrow> Theme" where
  "stored_theme e s k content =
     (case watcherPattern e (classify k) k of
        None \<Rightarrow> \<lparr>css = content, onDidChange = None, onDidDelete = None, path = k,
                  registered = None, themeType = classify k\<rparr>
      | Some pat \<Rightarrow> \<lparr>css = content, onDidChange = Some (nextDisposable s),
                  onDidDelete = Some (Suc (nextDisposable s)), path = k,
                  registered = None, themeType = classify k\<rparr>)"

text \<open>The disposables a list of map entries holds.\<close>

definition held :: "(string \<times> Theme) list \<Rightarrow> nat set" where
  "held m = {d. \<exists>x \<in> set m. onDidChange (snd x) = Some d \<or> onDidDelete (snd x) = Some d}"

text \<open>
  Every disposable is below \<open>nextDisposable\<close>, and a listener that is still subscribed
  under a disposable held by a stored theme is of the kind of that field and watches the
  key of the theme.
\<close>

definition owns :: "themes \<Rightarrow> bool" where
  "owns s \<longleftrightarrow>
     (\<forall>l \<in> set (listeners s). lid l < nextDisposable s) \<and>
     (\<forall>x \<in> set (observedThemes s). \<forall>d.
        (onDidChange (snd x) = Some d \<longrightarrow>
           d < nextDisposable s \<and>
           (\<forall>l \<in> set (listeners s). lid l = d \<longrightarrow> kind l = DidChange \<and> watched l = fst x)) \<and>
        (onDidDelete (snd x) = Some d \<longrightarrow>
           d < nextDisposable s \<and>
           (\<forall>l \<in> set (listeners s). lid l = d \<longrightarrow> kind l = DidDelete \<and> watched l = fst x)))"


text \<open>
  An event completes a resolution of the key \<open>k\<close>: it is the arrival of the content
  of a call of \<open>registerTheme\<close> that is pending for \<open>k\<close>. A run is quiet for \<open>k\<close> when
  none of its events completes a resolution of \<open>k\<close> in the state it meets.
\<close>

definition completes :: "string \<Rightarrow> themes \<Rightarrow> event \<Rightarrow> bool" where
  "completes k s ev =
     (case ev of
        FetchDone p result \<Rightarrow>
          (case result of
             Inl err \<Rightarrow> False
           | Inr content \<Rightarrow>
               (case find (\<lambda>t. promise t = p) (inFlight s) of
                  None \<Rightarrow> False
                | Some t \<Rightarrow> key t = k))
      | _ \<Rightarrow> False)"

fun quiet :: "env \<Rightarrow> string \<Rightarrow> themes \<Rightarrow> event list \<Rightarrow> bool" where
  "quiet e k s [] = True"
| "quiet e k s (ev # evs) = (\<not> completes k s ev \<and> quiet e k (step e ev s) evs)"

subsection \<open>A sample configuration\<close>

definition demo_process :: process where
  "demo_process = \<lparr>cwd = ''/home/user'', env_var = (\<lambda>v. None)\<rparr>"

definition demo_env :: env where
  "demo_env = \<lparr>path_resolve = posix_resolve demo_process, path_relative = posix_relative demo_process,
     fsPath = uri.path, URL_pathname = (\<lambda>p. Some (CHR ''/'' # p)),
     with_path_toString = (\<lambda>u p. Some (scheme u @ ''://'' @ authority u @ p)),
     virtual_pattern = (\<lambda>p. True)\<rparr>"

definition demo_root :: uri where
  "demo_root = \<lparr>scheme = ''file'', authority = [], path = ''/workspace/project'', query = [], fragment = []\<rparr>"

definition demo_conf :: "conf_entry list option" where
  "demo_conf = Some [Str ''theme.css'']"

definition demo_key :: string where
  "demo_key = ''/workspace/project/theme.css''"

definition demo_load :: event where
  "demo_load = LoadStyles demo_conf (Some demo_root)"

definition demo_theme :: "string \<Rightarrow> nat \<Rightarrow> Theme" where
  "demo_theme content d = \<lparr>css = content, onDidChange = Some d, onDidDelete = Some (Suc d),
     path = demo_key, registered = None, themeType = File\<rparr>"

definition demo_loaded :: themes where
  "demo_loaded = run demo_env [demo_load, FetchDone 0 (Inr ''h1 {}'')] new_Themes"

definition demo_changed :: themes where
  "demo_changed = run demo_env [demo_load, FetchDone 0 (Inr ''h1 {}''), FileChanged demo_key] new_Themes"

definition demo_conf2 :: "conf_entry list option" where
  "demo_conf2 = Some [Str ''theme.css'', Str ''./themes/../theme.css'']"

subsection \<open>A sample configuration on Windows\<close>

text \<open>
  \<open>Uri.fsPath\<close> belongs to VS Code. On Windows it gives a \<open>file\<close> URI with an authority
  the UNC path of that server, takes the slash before a drive letter away and writes
  the drive letter in lower case, and replaces the slashes by backslashes. The sample
  workspace folder is \<open>file:///c:/workspace/project\<close>.
\<close>

definition win32_fsPath :: "uri \<Rightarrow> string" where
  "win32_fsPath u =
     win (if authority u \<noteq> [] \<and> length (uri.path u) > 1 \<and> scheme u = ''file''
          then ''//'' @ authority u @ uri.path u
          else if length (uri.path u) \<ge> 3 \<and> uri.path u ! 0 = CHR ''/'' \<and>
                  isWindowsDeviceRoot (uri.path u ! 1) \<and> uri.path u ! 2 = CHR '':''
          then toLowerCase [uri.path u ! 1] @ drop 2 (uri.path u)
          else uri.path u)"

definition win32_process :: process where
  "win32_process = \<lparr>cwd = win ''C:/Users/user'', env_var = (\<lambda>v. None)\<rparr>"

definition win32_env :: env where
  "win32_env = \<lparr>path_resolve = win32_resolve win32_process, path_relative = win32_relative win32_process,
     fsPath = win32_fsPath, URL_pathname = (\<lambda>p. Some (CHR ''/'' # p)),
     with_path_toString = (\<lambda>u p. Some (scheme u @ ''://'' @ authority u @ p)),
     virtual_pattern = (\<lambda>p. True)\<rparr>"

definition win32_folder :: uri where
  "win32_folder = \<lparr>scheme = ''file'', authority = [], path = ''/c:/workspace/project'', query = [], fragment = []\<rparr>"

section \<open>Properties of the containers\<close>

lemma map_get_set: "map_get (map_set k v m) k' = (if k = k' then Some v else map_get m k')"
  by (induction m) auto

lemma map_get_delete: "map_get (map_delete k m) k' = (if k = k' then None else map_get m k')"
  by (induction m) (auto simp: map_delete_def)

lemma set_map_set: "set (map_set k v m) \<subseteq> insert (k, v) (set m)"
  by (induction m) (auto split: if_splits)

section \<open>Properties of the size presets\<close>

lemma keyed_size_line: "keyed m \<Longrightarrow> keyed (size_line ln m)"
  using set_map_set
  by (fastforce simp: keyed_def size_line_def map_delete_def split: list.splits)

lemma keyed_fold: "keyed m \<Longrightarrow> keyed (fold size_line ls m)"
  by (induction ls arbitrary: m) (auto simp: keyed_size_line)

lemma preset_for_keyed: "keyed m \<Longrightarrow> preset_for (map_values m) n = map_get m n"
  by (induction m) (auto simp: keyed_def preset_for_def map_values_def)

lemma get_size_line:
  "map_get (size_line ln m) n =
     (if defines_preset ln n then Some (preset_of ln)
      else if removes_preset ln n then None else map_get m n)"
  by (auto simp: size_line_def defines_preset_def removes_preset_def preset_of_def
      map_get_set map_get_delete split: list.splits)

lemma removes_not_defines: "removes_preset ln n \<Longrightarrow> \<not> defines_preset ln n"
  by (auto simp: removes_preset_def defines_preset_def split: list.splits)

lemma get_fold_untouched:
  "\<forall>l \<in> set post. \<not> defines_preset l n \<and> \<not> removes_preset l n \<Longrightarrow>
   map_get (fold size_line post m) n = map_get m n"
  by (induction post arbitrary: m) (auto simp: get_size_line)

lemma preset_for_getSizePresets:
  "preset_for (getSizePresets (Some ls)) n = map_get (fold size_line ls []) n"
proof -
  have "keyed []" by (simp add: keyed_def)
  then have "keyed (fold size_line ls [])" by (rule keyed_fold)
  then show ?thesis by (simp add: getSizePresets_def preset_for_keyed)
qed

lemma js_eq: "js a = js b \<longleftrightarrow> a = b"
  unfolding js_def by (rule inj_map_eq_map) (simp add: inj_on_def)

lemma split_ws_examples:
  "split_ws (js ''a 4:3 false'') = [js ''a'', js ''4:3'', js ''false'']"
  "split_ws (js ''a 16 9'') = [js ''a'', js ''16'', js ''9'']"
  "split_ws (js ''b 4 3'') = [js ''b'', js ''4'', js ''3'']"
  "split_ws (js ''a'' @ 0xA0 # js ''false'') = [js ''a'', js ''false'']"
  by (simp_all add: js_def is_space_def)

text \<open>
  Claim C4. \<open>getSizePresets\<close> applies the metadata lines in order and the last line
  that concerns a name decides: when no later line defines or removes the name \<open>n\<close>, a
  three-token line \<open>n w h\<close> leaves exactly the preset \<open>n: w x h\<close> for \<open>n\<close> in the result,
  and a two-token line \<open>n false\<close> leaves no preset for \<open>n\<close>. The lines
  \<open>a 4:3 false\<close>, \<open>a 16 9\<close>, \<open>a 16 9\<close>, \<open>b 4 3\<close> give the presets \<open>a: 16 x 9\<close> and
  \<open>b: 4 x 3\<close> and nothing else.
\<close>

theorem getSizePresets_last_writer_wins:
  "((\<forall>l \<in> set post. \<not> defines_preset l n \<and> \<not> removes_preset l n) \<longrightarrow>
      (defines_preset ln n \<longrightarrow>
         preset_for (getSizePresets (Some (pre @ ln # post))) n = Some (preset_of ln)) \<and>
      (removes_preset ln n \<longrightarrow>
         preset_for (getSizePresets (Some (pre @ ln # post))) n = None)) \<and>
   getSizePresets (Some [js ''a 4:3 false'', js ''a 16 9'', js ''a 16 9'', js ''b 4 3'']) =
     [\<lparr>height = js ''9'', name = js ''a'', width = js ''16''\<rparr>,
      \<lparr>height = js ''3'', name = js ''b'', width = js ''4''\<rparr>]"
proof (intro conjI impI)
  assume later: "\<forall>l \<in> set post. \<not> defines_preset l n \<and> \<not> removes_preset l n"
  have at_ln: "preset_for (getSizePresets (Some (pre @ ln # post))) n
      = map_get (size_line ln (fold size_line pre [])) n"
    using later by (simp add: preset_for_getSizePresets get_fold_untouched)
  show "preset_for (getSizePresets (Some (pre @ ln # post))) n = Some (preset_of ln)"
    if "defines_preset ln n"
    using that by (simp add: at_ln get_size_line)
  show "preset_for (getSizePresets (Some (pre @ ln # post))) n = None"
    if "removes_preset ln n"
    using that removes_not_defines [of ln n] by (simp add: at_ln get_size_line)
next
  show "getSizePresets (Some [js ''a 4:3 false'', js ''a 16 9'', js ''a 16 9'', js ''b 4 3'']) =
     [\<lparr>height = js ''9'', name = js ''a'', width = js ''16''\<rparr>,
      \<lparr>height = js ''3'', name = js ''b'', width = js ''4''\<rparr>]"
    by (simp add: getSizePresets_def size_line_def split_ws_examples map_values_def js_eq)
qed

theorem getSizePresets_last_writer_wins_witness:
  "\<not> defines_preset (js ''b 4 3'') (js ''a'') \<and> \<not> removes_preset (js ''b 4 3'') (js ''a'') \<and>
   defines_preset (js ''a 16 9'') (js ''a'') \<and>
   preset_for (getSizePresets (Some ([js ''a 4:3 false'', js ''a 16 9''] @ js ''a 16 9'' # [js ''b 4 3'']))) (js ''a'')
     = Some \<lparr>height = js ''9'', name = js ''a'', width = js ''16''\<rparr> \<and>
   removes_preset (js ''a'' @ 0xA0 # js ''false'') (js ''a'') \<and>
   preset_for (getSizePresets (Some ([js ''a 16 9''] @ (js ''a'' @ 0xA0 # js ''false'') # [js ''b 4 3'']))) (js ''a'')
     = None"
proof -
  have later: "\<forall>l \<in> set [js ''b 4 3'']. \<not> defines_preset l (js ''a'') \<and> \<not> removes_preset l (js ''a'')"
    by (simp add: defines_preset_def removes_preset_def split_ws_examples js_eq)
  have d: "defines_preset (js ''a 16 9'') (js ''a'')"
    by (simp add: defines_preset_def split_ws_examples)
  have p: "preset_of (js ''a 16 9'') = \<lparr>height = js ''9'', name = js ''a'', width = js ''16''\<rparr>"
    by (simp add: preset_of_def split_ws_examples)
  have r: "removes_preset (js ''a'' @ 0xA0 # js ''false'') (js ''a'')"
    by (simp add: removes_preset_def split_ws_examples)
  from getSizePresets_last_writer_wins [of "[js ''b 4 3'']" "js ''a''" "js ''a 16 9''"
      "[js ''a 4:3 false'', js ''a 16 9'']"]
    getSizePresets_last_writer_wins [of "[js ''b 4 3'']" "js ''a''" "js ''a'' @ 0xA0 # js ''false''"
      "[js ''a 16 9'']"]
    later d p r
  show ?thesis by simp
qed

section \<open>Properties of paths and of the normalisation\<close>

lemma startsWith_join_dotdot: "startsWith (join_path (''..'' # xs)) ''..''"
  by (cases xs) (simp_all add: startsWith_def)

lemma prefix_long: "prefix p xs \<Longrightarrow> length xs \<le> length p \<Longrightarrow> p = xs"
  by (auto simp: prefix_def)

lemma lcp_full: "length xs \<le> length (longest_common_prefix xs ys) \<Longrightarrow> prefix xs ys"
proof -
  assume len: "length xs \<le> length (longest_common_prefix xs ys)"
  have p1: "prefix (longest_common_prefix xs ys) xs"
    by (rule longest_common_prefix_prefix1)
  from p1 len have "longest_common_prefix xs ys = xs"
    by (rule prefix_long)
  then show ?thesis
    by (metis longest_common_prefix_prefix2)
qed

lemma relative_inside:
  assumes "\<not> startsWith (posix_relative c base r) ''..''"
  shows "posix_within c base r"
proof (cases "base = r \<or> posix_resolve c [base] = posix_resolve c [r]")
  case True
  then show ?thesis by (auto simp: posix_within_def)
next
  case False
  define fs where "fs = segments (posix_resolve c [base])"
  define ts where "ts = segments (posix_resolve c [r])"
  define n where "n = length (longest_common_prefix fs ts)"
  from False have rel: "posix_relative c base r = join_path (replicate (length fs - n) ''..'' @ drop n ts)"
    by (simp add: posix_relative_def Let_def fs_def ts_def n_def)
  have "length fs \<le> n"
  proof (rule ccontr)
    assume "\<not> length fs \<le> n"
    then obtain m where "length fs - n = Suc m"
      by (metis Suc_diff_Suc not_le diff_zero zero_less_diff less_imp_Suc_add diff_add_inverse add.commute)
    then have "posix_relative c base r = join_path (''..'' # (replicate m ''..'' @ drop n ts))"
      by (simp add: rel)
    with assms show False
      by (simp add: startsWith_join_dotdot)
  qed
  then have "prefix fs ts"
    unfolding n_def by (rule lcp_full)
  then show ?thesis by (simp add: posix_within_def fs_def ts_def)
qed

lemma set_set_add: "set (set_add x xs) = insert x (set xs)"
  by (auto simp: set_add_def)

lemma distinct_set_add: "distinct xs \<Longrightarrow> distinct (set_add x xs)"
  by (simp add: set_add_def)

lemma distinct_normalize_entry: "distinct acc \<Longrightarrow> distinct (normalize_entry e r x acc)"
  by (simp add: normalize_entry_def distinct_set_add Let_def split: conf_entry.splits option.splits)

lemma distinct_fold_normalize: "distinct acc \<Longrightarrow> distinct (fold (normalize_entry e r) xs acc)"
  by (induction xs arbitrary: acc) (simp_all add: distinct_normalize_entry)

lemma distinct_normalizePaths: "distinct (normalizePaths e paths r)"
  by (simp add: normalizePaths_def distinct_fold_normalize)

text \<open>
  What one entry contributes when the base directory is a file URI and the platform's
  \<open>path\<close> module is the POSIX one.
\<close>

lemma normalize_entry_file:
  assumes "scheme root = ''file''"
    and "path_resolve e = posix_resolve pr" and "path_relative e = posix_relative pr"
    and "k \<in> set (normalize_entry e (Some root) x acc)"
  shows "k \<in> set acc \<or> (\<exists>p. x = Str p \<and> isRemotePath p \<and> k = p) \<or>
     (\<exists>p. x = Str p \<and> k = posix_resolve pr [fsPath e root, p] \<and> posix_within pr (fsPath e root) k)"
proof (cases x)
  case NotString
  with assms show ?thesis by (simp add: normalize_entry_def)
next
  case (Str p)
  show ?thesis
  proof (cases "isRemotePath p")
    case True
    with assms Str show ?thesis by (auto simp: normalize_entry_def set_set_add)
  next
    case False
    show ?thesis
    proof (cases "startsWith (posix_relative pr (fsPath e root) (posix_resolve pr [fsPath e root, p])) ''..''")
      case True
      with assms Str False show ?thesis by (simp add: normalize_entry_def)
    next
      case inside: False
      then have "posix_within pr (fsPath e root) (posix_resolve pr [fsPath e root, p])"
        by (rule relative_inside)
      with assms Str False inside show ?thesis
        by (auto simp: normalize_entry_def set_set_add)
    qed
  qed
qed

lemma fold_normalize_file:
  assumes "scheme root = ''file''"
    and "path_resolve e = posix_resolve pr" and "path_relative e = posix_relative pr"
  shows "k \<in> set (fold (normalize_entry e (Some root)) xs acc) \<Longrightarrow>
     k \<in> set acc \<or> (\<exists>p. Str p \<in> set xs \<and> isRemotePath p \<and> k = p) \<or>
     (\<exists>p. Str p \<in> set xs \<and> k = posix_resolve pr [fsPath e root, p] \<and> posix_within pr (fsPath e root) k)"
proof (induction xs arbitrary: acc)
  case Nil
  then show ?case by simp
next
  case (Cons x xs)
  from Cons.prems have "k \<in> set (fold (normalize_entry e (Some root)) xs (normalize_entry e (Some root) x acc))"
    by simp
  from Cons.IH [OF this] normalize_entry_file [OF assms, of k x acc]
  show ?case by auto
qed

lemma passwd_dropped:
  assumes "scheme root = ''file''" and "fsPath e root = ''/workspace/project''"
    and "path_resolve e = posix_resolve pr" and "path_relative e = posix_relative pr"
  shows "normalizePaths e [Str ''../../etc/passwd''] (Some root) = []"
proof -
  have r: "posix_resolve pr [''/workspace/project'', ''../../etc/passwd''] = ''/etc/passwd''"
    by (simp add: posix_resolve_def segments_def)
  have "posix_relative pr ''/workspace/project'' ''/etc/passwd'' = ''../../etc/passwd''"
    by (simp add: posix_relative_def posix_resolve_def segments_def)
  with r assms show ?thesis
    by (simp add: normalizePaths_def normalize_entry_def isRemotePath_def startsWith_def)
qed

text \<open>
  With the POSIX module the guard holds. With a base directory of scheme \<open>file\<close>, every
  key in the output of \<open>normalizePaths\<close> is a remote reference taken as it is, or the
  resolved path of a reference that lies within the base directory (it is the base or a
  descendant of it), and normalising \<open>../../etc/passwd\<close> against the base
  \<open>/workspace/project\<close> gives the empty list.
\<close>

lemma posix_traversal_guard:
  assumes "path_resolve e = posix_resolve pr" and "path_relative e = posix_relative pr"
    and "scheme root = ''file''"
  shows "k \<in> set (normalizePaths e paths (Some root)) \<Longrightarrow>
      (\<exists>p. Str p \<in> set paths \<and> isRemotePath p \<and> k = p) \<or>
      (\<exists>p. Str p \<in> set paths \<and> k = posix_resolve pr [fsPath e root, p] \<and>
           posix_within pr (fsPath e root) k)"
    and "fsPath e root = ''/workspace/project'' \<Longrightarrow>
      normalizePaths e [Str ''../../etc/passwd''] (Some root) = []"
proof -
  assume "k \<in> set (normalizePaths e paths (Some root))"
  then have "k \<in> set (fold (normalize_entry e (Some root)) paths [])"
    by (simp add: normalizePaths_def)
  with fold_normalize_file [OF assms(3) assms(1) assms(2), of k paths "[]"]
  show "(\<exists>p. Str p \<in> set paths \<and> isRemotePath p \<and> k = p) \<or>
      (\<exists>p. Str p \<in> set paths \<and> k = posix_resolve pr [fsPath e root, p] \<and>
           posix_within pr (fsPath e root) k)"
    by simp
next
  assume "fsPath e root = ''/workspace/project''"
  with assms show "normalizePaths e [Str ''../../etc/passwd''] (Some root) = []"
    by (simp add: passwd_dropped)
qed

lemma demo_normalize:
  "normalizePaths demo_env [Str ''../../etc/passwd'', Str ''themes/a.css''] (Some demo_root)
     = [''/workspace/project/themes/a.css'']"
  "normalizePaths demo_env [Str ''../../etc/passwd''] (Some demo_root) = []"
  "posix_within demo_process (fsPath demo_env demo_root) ''/workspace/project/themes/a.css''"
  by (simp_all add: normalizePaths_def normalize_entry_def demo_env_def demo_root_def isRemotePath_def
      startsWith_def posix_resolve_def posix_relative_def segments_def set_add_def posix_within_def
      demo_process_def)

text \<open>The same reference on Windows, and a reference to another drive.\<close>

lemma win32_examples:
  "fsPath win32_env win32_folder = win ''c:/workspace/project''"
  "win32_resolve win32_process [win ''c:/workspace/project'', ''../../etc/passwd''] = win ''c:/etc/passwd''"
  "win32_relative win32_process (win ''c:/workspace/project'') (win ''c:/etc/passwd'')
     = win ''../../etc/passwd''"
  "win32_resolve win32_process [win ''c:/workspace/project'', win ''D:/secret.css''] = win ''D:/secret.css''"
  "win32_relative win32_process (win ''c:/workspace/project'') (win ''D:/secret.css'')
     = win ''D:/secret.css''"
  by (simp_all add: win32_env_def win32_folder_def win32_fsPath_def win32_resolve_def win32_relative_def
      win_def backslash_def win32_root_def isPathSeparator_def isWindowsDeviceRoot_def toLowerCase_def
      win32_segments_def win32_process_def drive_cwd_def)

text \<open>
  Claim C3 fails on Windows, where the guard of \<open>normalizePaths\<close> misses a case. For a
  reference to another drive than that of the base directory, or to a UNC share,
  \<open>path.relative\<close> returns the resolved path itself, which is absolute and does not
  start with \<open>..\<close>. So with the workspace folder \<open>file:///c:/workspace/project\<close> the
  reference \<open>D:/secret.css\<close> (written with a backslash) passes the guard, and its
  resolved path, which does not lie within the base directory, is in the output; so is
  the path of a reference to a share of another machine. On the same workspace folder
  the reference \<open>../../etc/passwd\<close> is dropped.
\<close>

theorem normalizePaths_admits_other_drive:
  "scheme win32_folder = ''file'' \<and>
   fsPath win32_env win32_folder = win ''c:/workspace/project'' \<and>
   path_resolve win32_env [fsPath win32_env win32_folder, win ''D:/secret.css''] = win ''D:/secret.css'' \<and>
   path_relative win32_env (fsPath win32_env win32_folder) (win ''D:/secret.css'') = win ''D:/secret.css'' \<and>
   \<not> startsWith (win ''D:/secret.css'') ''..'' \<and>
   \<not> win32_within win32_process (fsPath win32_env win32_folder) (win ''D:/secret.css'') \<and>
   normalizePaths win32_env [Str (win ''D:/secret.css'')] (Some win32_folder) = [win ''D:/secret.css''] \<and>
   normalizePaths win32_env [Str (win ''//server/share/secret.css'')] (Some win32_folder)
     = [win ''//server/share/secret.css''] \<and>
   normalizePaths win32_env [Str ''../../etc/passwd''] (Some win32_folder) = []"
  by (simp add: normalizePaths_def normalize_entry_def isRemotePath_def startsWith_def set_add_def
      win32_env_def win32_folder_def win32_fsPath_def win32_resolve_def win32_relative_def
      win_def backslash_def win32_root_def isPathSeparator_def isWindowsDeviceRoot_def toLowerCase_def
      win32_segments_def win32_process_def drive_cwd_def win32_within_def)


section \<open>Properties of the cache of observed themes\<close>

subsection \<open>settle and registerTheme\<close>

lemma settle_fields [simp]:
  "observedThemes (settle p r c s) = observedThemes s"
  "listeners (settle p r c s) = listeners s"
  "nextDisposable (settle p r c s) = nextDisposable s"
  "inFlight (settle p r c s) = inFlight s"
  "fetched (settle p r c s) = fetched s"
  "nextPromise (settle p r c s) = nextPromise s"
  "settled (settle p r c s) = settled s @ [(p, r)]"
  by (simp_all add: settle_def Let_def split: sum.splits)

lemma settle_refreshes:
  "refreshes (settle p (Inr th) c s) = (if c = FromChangeHandler then Suc (refreshes s) else refreshes s)"
  "refreshes (settle p (Inl err) c s) = refreshes s"
  by (simp_all add: settle_def Let_def)

lemma registerTheme_fields [simp]:
  "observedThemes (registerTheme c k s) = observedThemes s"
  "listeners (registerTheme c k s) = listeners s"
  "nextDisposable (registerTheme c k s) = nextDisposable s"
  "nextPromise (registerTheme c k s) = Suc (nextPromise s)"
  by (simp_all add: registerTheme_def Let_def split: option.splits)

lemma registerTheme_miss:
  assumes "map_get (observedThemes s) k = None"
  shows "fetched (registerTheme c k s) = fetched s @ [k]"
    and "inFlight (registerTheme c k s) = inFlight s @ [\<lparr>promise = nextPromise s, key = k, caller = c\<rparr>]"
    and "settled (registerTheme c k s) = settled s"
    and "refreshes (registerTheme c k s) = refreshes s"
  using assms by (simp_all add: registerTheme_def Let_def)

lemma registerTheme_hit:
  assumes "map_get (observedThemes s) k = Some th"
  shows "fetched (registerTheme c k s) = fetched s"
    and "inFlight (registerTheme c k s) = inFlight s"
    and "settled (registerTheme c k s) = settled s @ [(nextPromise s, Inr th)]"
  using assms by (simp_all add: registerTheme_def Let_def)

lemma fold_registerTheme_fields [simp]:
  "observedThemes (fold (registerTheme c) ks s) = observedThemes s"
  "listeners (fold (registerTheme c) ks s) = listeners s"
  "nextDisposable (fold (registerTheme c) ks s) = nextDisposable s"
  by (induction ks arbitrary: s) simp_all

lemma count_fetched_registerTheme:
  "count_list (fetched (registerTheme c k' s)) k =
     count_list (fetched s) k + (if k' = k \<and> map_get (observedThemes s) k = None then 1 else 0)"
  by (cases "map_get (observedThemes s) k'") (auto simp: registerTheme_miss registerTheme_hit)

lemma count_fetched_fold:
  "count_list (fetched (fold (registerTheme c) ks s)) k =
     count_list (fetched s) k + (if map_get (observedThemes s) k = None then count_list ks k else 0)"
  by (induction ks arbitrary: s) (simp_all add: count_fetched_registerTheme)

lemma count_list_distinct: "distinct xs \<Longrightarrow> x \<in> set xs \<Longrightarrow> count_list xs x = 1"
  by (induction xs) (auto simp: count_list_0_iff)

lemma loadStyles_fields [simp]:
  "observedThemes (loadStyles e conf root s) = observedThemes s"
  "listeners (loadStyles e conf root s) = listeners s"
  "nextDisposable (loadStyles e conf root s) = nextDisposable s"
  by (simp_all add: loadStyles_def)

lemma distinct_getPathsFromConf: "distinct (getPathsFromConf e conf root)"
  by (simp add: getPathsFromConf_def distinct_normalizePaths split: option.splits)

lemma count_fetched_loadStyles:
  assumes "k \<in> set (getPathsFromConf e conf root)"
  shows "count_list (fetched (loadStyles e conf root s)) k =
     count_list (fetched s) k + (if map_get (observedThemes s) k = None then 1 else 0)"
  using assms
  by (simp add: loadStyles_def count_fetched_fold count_list_distinct distinct_getPathsFromConf)

lemma run_replicate_load_fields [simp]:
  "observedThemes (run e (replicate n (LoadStyles conf root)) s) = observedThemes s"
  by (induction n arbitrary: s) (simp_all add: run_def)

lemma count_fetched_loads:
  assumes "k \<in> set (getPathsFromConf e conf root)"
  shows "count_list (fetched (run e (replicate n (LoadStyles conf root)) s)) k =
     count_list (fetched s) k + (if map_get (observedThemes s) k = None then n else 0)"
proof (induction n arbitrary: s)
  case 0
  then show ?case by (simp add: run_def)
next
  case (Suc n)
  have "run e (replicate (Suc n) (LoadStyles conf root)) s
      = run e (replicate n (LoadStyles conf root)) (loadStyles e conf root s)"
    by (simp add: run_def)
  then show ?case
    by (simp add: Suc.IH count_fetched_loadStyles [OF assms])
qed

subsection \<open>The end of a resolution\<close>

lemma map_get_set_same: "map_get (map_set k v m) k = Some v"
  by (simp add: map_get_set)

lemma watcherPattern_Some: "watcherPattern e ty k = Some pat \<Longrightarrow> pat = k"
  by (auto simp: watcherPattern_def split: ThemeType.splits if_splits)

lemma resume_observed:
  "observedThemes (registerTheme_resume e t content s)
     = map_set (key t) (stored_theme e s (key t) content) (observedThemes s)"
  by (simp add: registerTheme_resume_def stored_theme_def Let_def split: option.splits)

lemma resume_settled:
  "settled (registerTheme_resume e t content s)
     = settled s @ [(promise t, Inr ((stored_theme e s (key t) content)\<lparr>registered := Some True\<rparr>))]"
  by (simp add: registerTheme_resume_def stored_theme_def Let_def split: option.splits)

lemma resume_listeners:
  "listeners (registerTheme_resume e t content s) =
     (if watcherPattern e (classify (key t)) (key t) = None then listeners s
      else listeners s @ [\<lparr>lid = nextDisposable s, kind = DidChange, watched = key t\<rparr>,
                          \<lparr>lid = Suc (nextDisposable s), kind = DidDelete, watched = key t\<rparr>])"
  by (auto simp: registerTheme_resume_def Let_def dest: watcherPattern_Some split: option.splits)

lemma resume_nextDisposable:
  "nextDisposable (registerTheme_resume e t content s) =
     (if watcherPattern e (classify (key t)) (key t) = None then nextDisposable s
      else Suc (Suc (nextDisposable s)))"
  by (simp add: registerTheme_resume_def Let_def split: option.splits)

lemma resume_other [simp]:
  "inFlight (registerTheme_resume e t content s) = inFlight s"
  "fetched (registerTheme_resume e t content s) = fetched s"
  "nextPromise (registerTheme_resume e t content s) = nextPromise s"
  by (simp_all add: registerTheme_resume_def Let_def split: option.splits)

lemma resume_refreshes:
  "refreshes (registerTheme_resume e t content s) =
     (if caller t = FromChangeHandler then Suc (refreshes s) else refreshes s)"
  by (simp add: registerTheme_resume_def Let_def settle_refreshes split: option.splits)

lemma fetchDone_ok:
  assumes "find (\<lambda>t. promise t = p) (inFlight s) = Some t"
  shows "fetchDone e p (Inr content) s
     = registerTheme_resume e t content (s\<lparr>inFlight := filter (\<lambda>t. promise t \<noteq> p) (inFlight s)\<rparr>)"
  using assms by (simp add: fetchDone_def)

lemma fetchDone_failed:
  assumes "find (\<lambda>t. promise t = p) (inFlight s) = Some t"
  shows "fetchDone e p (Inl err) s
     = settle p (Inl err) (caller t) (s\<lparr>inFlight := filter (\<lambda>t. promise t \<noteq> p) (inFlight s)\<rparr>)"
  using assms by (simp add: fetchDone_def)

lemma fetchDone_none:
  "find (\<lambda>t. promise t = p) (inFlight s) = None \<Longrightarrow> fetchDone e p r s = s"
  by (simp add: fetchDone_def)

lemma stored_theme_inFlight [simp]:
  "stored_theme e (s\<lparr>inFlight := x\<rparr>) k content = stored_theme e s k content"
  by (simp add: stored_theme_def split: option.splits)

lemma find_promise: "find (\<lambda>t. promise t = p) ts = Some t \<Longrightarrow> promise t = p"
  by (auto simp: find_Some_iff)

lemma fetchDone_ok_stored:
  assumes "find (\<lambda>t. promise t = p) (inFlight s) = Some t"
  shows "map_get (observedThemes (fetchDone e p (Inr content) s)) (key t)
           = Some (stored_theme e s (key t) content)"
    and "settled (fetchDone e p (Inr content) s)
           = settled s @ [(p, Inr ((stored_theme e s (key t) content)\<lparr>registered := Some True\<rparr>))]"
  using assms find_promise [OF assms]
  by (simp_all add: fetchDone_ok resume_observed resume_settled map_get_set_same)

lemma stored_theme_fields [simp]:
  "css (stored_theme e s k content) = content"
  "path (stored_theme e s k content) = k"
  "registered (stored_theme e s k content) = None"
  "themeType (stored_theme e s k content) = classify k"
  by (simp_all add: stored_theme_def split: option.splits)

subsection \<open>The handlers\<close>

lemma dispose_listener_fields [simp]:
  "observedThemes (dispose_listener d s) = observedThemes s"
  "nextDisposable (dispose_listener d s) = nextDisposable s"
  "inFlight (dispose_listener d s) = inFlight s"
  "fetched (dispose_listener d s) = fetched s"
  "nextPromise (dispose_listener d s) = nextPromise s"
  "settled (dispose_listener d s) = settled s"
  "refreshes (dispose_listener d s) = refreshes s"
  "listeners (dispose_listener d s) = filter (\<lambda>l. lid l \<noteq> d) (listeners s)"
  by (simp_all add: dispose_listener_def)

lemma map_get_delete_same: "map_get (map_delete k m) k = None"
  by (simp add: map_get_delete)

lemma change_handler:
  "listeners (onDidChange_handler d k s) = filter (\<lambda>l. lid l \<noteq> d) (listeners s)"
  "observedThemes (onDidChange_handler d k s) = map_delete k (observedThemes s)"
  "nextDisposable (onDidChange_handler d k s) = nextDisposable s"
  "fetched (onDidChange_handler d k s) = fetched s @ [k]"
  "inFlight (onDidChange_handler d k s)
     = inFlight s @ [\<lparr>promise = nextPromise s, key = k, caller = FromChangeHandler\<rparr>]"
  "refreshes (onDidChange_handler d k s) = refreshes s"
  "settled (onDidChange_handler d k s) = settled s"
  by (simp_all add: onDidChange_handler_def Let_def registerTheme_miss map_get_delete_same)

lemma delete_handler:
  "listeners (onDidDelete_handler d k s) = filter (\<lambda>l. lid l \<noteq> d) (listeners s)"
  "observedThemes (onDidDelete_handler d k s) = map_delete k (observedThemes s)"
  "nextDisposable (onDidDelete_handler d k s) = nextDisposable s"
  "fetched (onDidDelete_handler d k s) = fetched s"
  "inFlight (onDidDelete_handler d k s) = inFlight s"
  "refreshes (onDidDelete_handler d k s) = refreshes s"
  "settled (onDidDelete_handler d k s) = settled s"
  by (simp_all add: onDidDelete_handler_def Let_def)

text \<open>Calling a list of listeners of one kind, all subscribed for the same theme path.\<close>

lemma fold_fire_listeners:
  "listeners (fold fire ls s) = filter (\<lambda>l. lid l \<notin> lid ` set ls) (listeners s)"
proof (induction ls arbitrary: s)
  case Nil
  show ?case by simp
next
  case (Cons l ls)
  have "listeners (fire l s) = filter (\<lambda>l'. lid l' \<noteq> lid l) (listeners s)"
    by (cases "kind l") (simp_all add: fire_def change_handler delete_handler)
  then show ?case
    by (simp add: Cons.IH conj_commute)
qed

lemma fold_fire_nextDisposable: "nextDisposable (fold fire ls s) = nextDisposable s"
proof (induction ls arbitrary: s)
  case Nil
  show ?case by simp
next
  case (Cons l ls)
  have "nextDisposable (fire l s) = nextDisposable s"
    by (cases "kind l") (simp_all add: fire_def change_handler delete_handler)
  then show ?case by (simp add: Cons.IH)
qed

lemma map_delete_idem: "map_delete k (map_delete k m) = map_delete k m"
  by (simp add: map_delete_def)

lemma fold_fire_change:
  assumes "\<forall>l \<in> set ls. kind l = DidChange \<and> watched l = k"
  shows "observedThemes (fold fire ls s) = (if ls = [] then observedThemes s else map_delete k (observedThemes s)) \<and>
    fetched (fold fire ls s) = fetched s @ replicate (length ls) k \<and>
    refreshes (fold fire ls s) = refreshes s \<and>
    settled (fold fire ls s) = settled s \<and>
    map (\<lambda>t. (key t, caller t)) (inFlight (fold fire ls s))
      = map (\<lambda>t. (key t, caller t)) (inFlight s) @ replicate (length ls) (k, FromChangeHandler)"
  using assms
proof (induction ls arbitrary: s)
  case Nil
  show ?case by simp
next
  case (Cons l ls)
  then have f: "fire l s = onDidChange_handler (lid l) k s"
    and r: "\<forall>l \<in> set ls. kind l = DidChange \<and> watched l = k"
    by (simp_all add: fire_def)
  show ?case
    by (simp add: f Cons.IH [OF r] change_handler map_delete_idem replicate_append_same)
qed

lemma fold_fire_delete:
  assumes "\<forall>l \<in> set ls. kind l = DidDelete \<and> watched l = k"
  shows "observedThemes (fold fire ls s) = (if ls = [] then observedThemes s else map_delete k (observedThemes s)) \<and>
    fetched (fold fire ls s) = fetched s \<and>
    refreshes (fold fire ls s) = refreshes s \<and>
    inFlight (fold fire ls s) = inFlight s \<and>
    settled (fold fire ls s) = settled s"
  using assms
proof (induction ls arbitrary: s)
  case Nil
  show ?case by simp
next
  case (Cons l ls)
  then have f: "fire l s = onDidDelete_handler (lid l) k s"
    and r: "\<forall>l \<in> set ls. kind l = DidDelete \<and> watched l = k"
    by (simp_all add: fire_def)
  show ?case
    by (simp add: f Cons.IH [OF r] delete_handler map_delete_idem)
qed

text \<open>The two file events.\<close>

lemma fileChanged_detaches:
  assumes "l \<in> set (listeners s)" and "kind l = DidChange" and "watched l = k"
  shows "lid l \<notin> lids (fileChanged k s)"
proof -
  from assms have "lid l \<in> lid ` set (filter (\<lambda>l. kind l = DidChange \<and> watched l = k) (listeners s))"
    by simp
  then show ?thesis
    by (auto simp: lids_def fileChanged_def fold_fire_listeners)
qed

lemma fileDeleted_detaches:
  assumes "l \<in> set (listeners s)" and "kind l = DidDelete" and "watched l = k"
  shows "lid l \<notin> lids (fileDeleted k s)"
proof -
  from assms have "lid l \<in> lid ` set (filter (\<lambda>l. kind l = DidDelete \<and> watched l = k) (listeners s))"
    by simp
  then show ?thesis
    by (auto simp: lids_def fileDeleted_def fold_fire_listeners)
qed

lemma fileChanged_effect:
  assumes "l \<in> set (listeners s)" and "kind l = DidChange" and "watched l = k"
  shows "observedThemes (fileChanged k s) = map_delete k (observedThemes s)"
    and "fetched (fileChanged k s)
       = fetched s @ replicate (length (filter (\<lambda>l. kind l = DidChange \<and> watched l = k) (listeners s))) k"
    and "refreshes (fileChanged k s) = refreshes s"
proof -
  let ?ls = "filter (\<lambda>l. kind l = DidChange \<and> watched l = k) (listeners s)"
  have all: "\<forall>l \<in> set ?ls. kind l = DidChange \<and> watched l = k" by simp
  from assms have ne: "?ls \<noteq> []" by (auto simp: filter_empty_conv)
  from fold_fire_change [OF all, of s] ne
  show "observedThemes (fileChanged k s) = map_delete k (observedThemes s)"
    and "fetched (fileChanged k s) = fetched s @ replicate (length ?ls) k"
    and "refreshes (fileChanged k s) = refreshes s"
    by (simp_all add: fileChanged_def)
qed

lemma fileChanged_idle:
  assumes "\<not> (\<exists>l \<in> set (listeners s). kind l = DidChange \<and> watched l = k)"
  shows "fileChanged k s = s"
proof -
  from assms have "filter (\<lambda>l. kind l = DidChange \<and> watched l = k) (listeners s) = []"
    by (auto simp: filter_empty_conv)
  then show ?thesis by (simp add: fileChanged_def)
qed

lemma fileDeleted_effect:
  assumes "l \<in> set (listeners s)" and "kind l = DidDelete" and "watched l = k"
  shows "observedThemes (fileDeleted k s) = map_delete k (observedThemes s)"
    and "fetched (fileDeleted k s) = fetched s"
    and "inFlight (fileDeleted k s) = inFlight s"
    and "refreshes (fileDeleted k s) = refreshes s"
proof -
  let ?ls = "filter (\<lambda>l. kind l = DidDelete \<and> watched l = k) (listeners s)"
  have all: "\<forall>l \<in> set ?ls. kind l = DidDelete \<and> watched l = k" by simp
  from assms have ne: "?ls \<noteq> []" by (auto simp: filter_empty_conv)
  from fold_fire_delete [OF all, of s] ne
  show "observedThemes (fileDeleted k s) = map_delete k (observedThemes s)"
    and "fetched (fileDeleted k s) = fetched s"
    and "inFlight (fileDeleted k s) = inFlight s"
    and "refreshes (fileDeleted k s) = refreshes s"
    by (simp_all add: fileDeleted_def)
qed

subsection \<open>dispose\<close>

lemma dispose_theme_fields [simp]:
  "observedThemes (dispose_theme x s) = observedThemes s"
  "nextDisposable (dispose_theme x s) = nextDisposable s"
  "inFlight (dispose_theme x s) = inFlight s"
  "fetched (dispose_theme x s) = fetched s"
  "nextPromise (dispose_theme x s) = nextPromise s"
  "settled (dispose_theme x s) = settled s"
  "refreshes (dispose_theme x s) = refreshes s"
  by (simp_all add: dispose_theme_def Let_def split: option.splits)

lemma held_simps [simp]:
  "held [] = {}"
  "held (x # m) = {d. onDidChange (snd x) = Some d \<or> onDidDelete (snd x) = Some d} \<union> held m"
  by (auto simp: held_def)

lemma dispose_theme_listeners:
  "listeners (dispose_theme x s) = filter (\<lambda>l. lid l \<notin> held [x]) (listeners s)"
  by (auto simp: dispose_theme_def Let_def split: option.splits intro: filter_cong)

lemma fold_dispose_theme_listeners:
  "listeners (fold dispose_theme m s) = filter (\<lambda>l. lid l \<notin> held m) (listeners s)"
proof (induction m arbitrary: s)
  case Nil
  show ?case by simp
next
  case (Cons x m)
  show ?case
    by (simp add: Cons.IH dispose_theme_listeners del: held_simps(2)) (auto intro: filter_cong)
qed

lemma fold_dispose_theme_fields [simp]:
  "nextDisposable (fold dispose_theme m s) = nextDisposable s"
  "inFlight (fold dispose_theme m s) = inFlight s"
  "fetched (fold dispose_theme m s) = fetched s"
  "nextPromise (fold dispose_theme m s) = nextPromise s"
  "settled (fold dispose_theme m s) = settled s"
  "refreshes (fold dispose_theme m s) = refreshes s"
  by (induction m arbitrary: s) simp_all

lemma dispose_fields:
  "observedThemes (dispose s) = []"
  "listeners (dispose s) = filter (\<lambda>l. lid l \<notin> held (observedThemes s)) (listeners s)"
  "nextDisposable (dispose s) = nextDisposable s"
  "inFlight (dispose s) = inFlight s"
  "fetched (dispose s) = fetched s"
  "nextPromise (dispose s) = nextPromise s"
  "settled (dispose s) = settled s"
  "refreshes (dispose s) = refreshes s"
  by (simp_all add: dispose_def fold_dispose_theme_listeners)

lemma dispose_idem: "dispose (dispose s) = dispose s"
  by (simp add: dispose_def [of "dispose s"] dispose_fields)

subsection \<open>Invariants of the reachable states\<close>

lemma keys_map_set:
  "map fst (map_set k v m) = (if k \<in> set (map fst m) then map fst m else map fst m @ [k])"
  by (induction m) force+

lemma distinct_map_set: "distinct (map fst m) \<Longrightarrow> distinct (map fst (map_set k v m))"
  by (simp add: keys_map_set)

lemma distinct_map_delete: "distinct (map fst m) \<Longrightarrow> distinct (map fst (map_delete k m))"
  by (simp add: map_delete_def distinct_map_filter)

lemma set_map_delete: "set (map_delete k m) \<subseteq> set m"
  by (auto simp: map_delete_def)

lemma map_get_in: "map_get m k = Some v \<Longrightarrow> (k, v) \<in> set m"
  by (induction m) (auto split: if_splits)

text \<open>What an event can do to the map: nothing, set a key, delete a key, clear it.\<close>

lemma fetchDone_observed:
  "observedThemes (fetchDone e p r s) = observedThemes s \<or>
   (\<exists>k v. observedThemes (fetchDone e p r s) = map_set k v (observedThemes s))"
proof (cases "find (\<lambda>t. promise t = p) (inFlight s)")
  case None
  then show ?thesis by (simp add: fetchDone_none)
next
  case (Some t)
  show ?thesis
  proof (cases r)
    case (Inl err)
    with Some show ?thesis by (simp add: fetchDone_failed)
  next
    case (Inr content)
    with Some show ?thesis by (auto simp: fetchDone_ok resume_observed)
  qed
qed

lemma fileChanged_observed:
  "observedThemes (fileChanged k s) = observedThemes s \<or>
   observedThemes (fileChanged k s) = map_delete k (observedThemes s)"
  using fileChanged_idle [of s k] fileChanged_effect(1) [of _ s k] by metis

lemma fileDeleted_observed:
  "observedThemes (fileDeleted k s) =
     (if filter (\<lambda>l. kind l = DidDelete \<and> watched l = k) (listeners s) = [] then observedThemes s
      else map_delete k (observedThemes s))"
proof -
  let ?ls = "filter (\<lambda>l. kind l = DidDelete \<and> watched l = k) (listeners s)"
  have all: "\<forall>l \<in> set ?ls. kind l = DidDelete \<and> watched l = k" by simp
  from fold_fire_delete [OF all, of s] show ?thesis by (simp add: fileDeleted_def)
qed

lemma step_observed:
  "observedThemes (step e ev s) = observedThemes s \<or>
   (\<exists>k v. observedThemes (step e ev s) = map_set k v (observedThemes s)) \<or>
   (\<exists>k. observedThemes (step e ev s) = map_delete k (observedThemes s)) \<or>
   observedThemes (step e ev s) = []"
proof (cases ev)
  case (LoadStyles conf root)
  then show ?thesis by simp
next
  case (FetchDone p r)
  with fetchDone_observed [of e p r s] show ?thesis by auto
next
  case (FileChanged k)
  with fileChanged_observed [of k s] show ?thesis by auto
next
  case (FileDeleted k)
  then show ?thesis by (auto simp: fileDeleted_observed)
next
  case Dispose
  then show ?thesis by (simp add: dispose_fields)
qed

lemma distinct_keys_step:
  assumes "distinct (map fst (observedThemes s))"
  shows "distinct (map fst (observedThemes (step e ev s)))"
  using step_observed [of e ev s] assms
  by (auto simp: distinct_map_set distinct_map_delete)

lemma distinct_keys_run:
  "distinct (map fst (observedThemes s)) \<Longrightarrow> distinct (map fst (observedThemes (run e evs s)))"
proof (induction evs arbitrary: s)
  case Nil
  then show ?case by (simp add: run_def)
next
  case (Cons ev evs)
  from Cons.prems have "distinct (map fst (observedThemes (step e ev s)))"
    by (rule distinct_keys_step)
  then have "distinct (map fst (observedThemes (run e evs (step e ev s))))"
    by (rule Cons.IH)
  then show ?case by (simp add: run_def)
qed

lemma distinct_keys_reachable: "distinct (map fst (observedThemes (run e evs new_Themes)))"
  by (rule distinct_keys_run) (simp add: new_Themes_def)

lemma no_key_no_entry: "k \<notin> set (map fst m) \<Longrightarrow> filter (\<lambda>x. fst x = k) m = []"
  by (induction m) auto

lemma distinct_keys_count:
  "distinct (map fst m) \<Longrightarrow> length (filter (\<lambda>x. fst x = k) m) \<le> 1"
  by (induction m) (auto simp: no_key_no_entry)

lemma distinct_keys_count_one:
  "distinct (map fst m) \<Longrightarrow> map_get m k = Some v \<Longrightarrow> length (filter (\<lambda>x. fst x = k) m) = 1"
  by (induction m) (auto simp: no_key_no_entry split: if_splits)

lemma owns_subset:
  assumes "owns s"
    and "set (listeners s') \<subseteq> set (listeners s)"
    and "set (observedThemes s') \<subseteq> set (observedThemes s)"
    and "nextDisposable s' = nextDisposable s"
  shows "owns s'"
  using assms unfolding owns_def by (metis (no_types, lifting) subsetD)

lemma owns_loadStyles: "owns s \<Longrightarrow> owns (loadStyles e conf root s)"
  by (erule owns_subset) simp_all

lemma owns_settle: "owns s \<Longrightarrow> owns (settle p r c s)"
  by (erule owns_subset) simp_all

lemma owns_fileChanged: "owns s \<Longrightarrow> owns (fileChanged k s)"
proof (erule owns_subset)
  show "set (listeners (fileChanged k s)) \<subseteq> set (listeners s)"
    by (simp add: fileChanged_def fold_fire_listeners)
  show "set (observedThemes (fileChanged k s)) \<subseteq> set (observedThemes s)"
    using fileChanged_observed [of k s] set_map_delete [of k "observedThemes s"] by auto
  show "nextDisposable (fileChanged k s) = nextDisposable s"
    by (simp add: fileChanged_def fold_fire_nextDisposable)
qed

lemma owns_fileDeleted: "owns s \<Longrightarrow> owns (fileDeleted k s)"
proof (erule owns_subset)
  show "set (listeners (fileDeleted k s)) \<subseteq> set (listeners s)"
    by (simp add: fileDeleted_def fold_fire_listeners)
  show "set (observedThemes (fileDeleted k s)) \<subseteq> set (observedThemes s)"
    using set_map_delete [of k "observedThemes s"] by (simp add: fileDeleted_observed)
  show "nextDisposable (fileDeleted k s) = nextDisposable s"
    by (simp add: fileDeleted_def fold_fire_nextDisposable)
qed

lemma owns_dispose: "owns s \<Longrightarrow> owns (dispose s)"
  by (erule owns_subset) (simp_all add: dispose_fields)

lemma owns_inFlight: "owns s \<Longrightarrow> owns (s\<lparr>inFlight := x\<rparr>)"
  by (erule owns_subset) simp_all

lemma stored_theme_ids:
  "onDidChange (stored_theme e s k content) = Some d \<Longrightarrow>
     d = nextDisposable s \<and> watcherPattern e (classify k) k \<noteq> None"
  "onDidDelete (stored_theme e s k content) = Some d \<Longrightarrow>
     d = Suc (nextDisposable s) \<and> watcherPattern e (classify k) k \<noteq> None"
  by (auto simp: stored_theme_def split: option.splits)

lemma owns_resume:
  assumes "owns s"
  shows "owns (registerTheme_resume e t content s)"
proof (cases "watcherPattern e (classify (key t)) (key t) = None")
  case True
  have none: "onDidChange (stored_theme e s (key t) content) = None"
    "onDidDelete (stored_theme e s (key t) content) = None"
    using True by (simp_all add: stored_theme_def)
  have sub: "set (observedThemes (registerTheme_resume e t content s))
      \<subseteq> insert (key t, stored_theme e s (key t) content) (set (observedThemes s))"
    by (simp add: resume_observed set_map_set)
  show ?thesis
    unfolding owns_def
  proof (intro conjI ballI allI)
    fix l assume "l \<in> set (listeners (registerTheme_resume e t content s))"
    with True assms show "lid l < nextDisposable (registerTheme_resume e t content s)"
      by (simp add: resume_listeners resume_nextDisposable owns_def)
  next
    fix x d assume x: "x \<in> set (observedThemes (registerTheme_resume e t content s))"
    from x sub have "x = (key t, stored_theme e s (key t) content) \<or> x \<in> set (observedThemes s)"
      by auto
    then show "onDidChange (snd x) = Some d \<longrightarrow>
        d < nextDisposable (registerTheme_resume e t content s) \<and>
        (\<forall>l \<in> set (listeners (registerTheme_resume e t content s)).
           lid l = d \<longrightarrow> kind l = DidChange \<and> watched l = fst x)"
      using True assms none by (auto simp: resume_listeners resume_nextDisposable owns_def)
    from \<open>x = (key t, stored_theme e s (key t) content) \<or> x \<in> set (observedThemes s)\<close>
    show "onDidDelete (snd x) = Some d \<longrightarrow>
        d < nextDisposable (registerTheme_resume e t content s) \<and>
        (\<forall>l \<in> set (listeners (registerTheme_resume e t content s)).
           lid l = d \<longrightarrow> kind l = DidDelete \<and> watched l = fst x)"
      using True assms none by (auto simp: resume_listeners resume_nextDisposable owns_def)
  qed
next
  case False
  let ?n = "nextDisposable s"
  have ids: "onDidChange (stored_theme e s (key t) content) = Some ?n"
    "onDidDelete (stored_theme e s (key t) content) = Some (Suc ?n)"
    using False by (auto simp: stored_theme_def)
  have sub: "set (observedThemes (registerTheme_resume e t content s))
      \<subseteq> insert (key t, stored_theme e s (key t) content) (set (observedThemes s))"
    by (simp add: resume_observed set_map_set)
  have ls: "listeners (registerTheme_resume e t content s) = listeners s @
      [\<lparr>lid = ?n, kind = DidChange, watched = key t\<rparr>, \<lparr>lid = Suc ?n, kind = DidDelete, watched = key t\<rparr>]"
    using False by (simp add: resume_listeners)
  have nd: "nextDisposable (registerTheme_resume e t content s) = Suc (Suc ?n)"
    using False by (simp add: resume_nextDisposable)
  from assms have old: "\<forall>l \<in> set (listeners s). lid l < ?n"
    by (simp add: owns_def)
  show ?thesis
    unfolding owns_def
  proof (intro conjI ballI allI)
    fix l assume "l \<in> set (listeners (registerTheme_resume e t content s))"
    with old show "lid l < nextDisposable (registerTheme_resume e t content s)"
      by (auto simp: ls nd)
  next
    fix x d assume x: "x \<in> set (observedThemes (registerTheme_resume e t content s))"
    from x sub have cases: "x = (key t, stored_theme e s (key t) content) \<or> x \<in> set (observedThemes s)"
      by auto
    show "onDidChange (snd x) = Some d \<longrightarrow>
        d < nextDisposable (registerTheme_resume e t content s) \<and>
        (\<forall>l \<in> set (listeners (registerTheme_resume e t content s)).
           lid l = d \<longrightarrow> kind l = DidChange \<and> watched l = fst x)"
    proof
      assume c: "onDidChange (snd x) = Some d"
      from cases show "d < nextDisposable (registerTheme_resume e t content s) \<and>
        (\<forall>l \<in> set (listeners (registerTheme_resume e t content s)).
           lid l = d \<longrightarrow> kind l = DidChange \<and> watched l = fst x)"
      proof
        assume "x = (key t, stored_theme e s (key t) content)"
        with c ids old show ?thesis by (auto simp: ls nd)
      next
        assume "x \<in> set (observedThemes s)"
        with c assms have "d < ?n"
          and "\<forall>l \<in> set (listeners s). lid l = d \<longrightarrow> kind l = DidChange \<and> watched l = fst x"
          unfolding owns_def by blast+
        then show ?thesis by (auto simp: ls nd)
      qed
    qed
    show "onDidDelete (snd x) = Some d \<longrightarrow>
        d < nextDisposable (registerTheme_resume e t content s) \<and>
        (\<forall>l \<in> set (listeners (registerTheme_resume e t content s)).
           lid l = d \<longrightarrow> kind l = DidDelete \<and> watched l = fst x)"
    proof
      assume c: "onDidDelete (snd x) = Some d"
      from cases show "d < nextDisposable (registerTheme_resume e t content s) \<and>
        (\<forall>l \<in> set (listeners (registerTheme_resume e t content s)).
           lid l = d \<longrightarrow> kind l = DidDelete \<and> watched l = fst x)"
      proof
        assume "x = (key t, stored_theme e s (key t) content)"
        with c ids old show ?thesis by (auto simp: ls nd)
      next
        assume "x \<in> set (observedThemes s)"
        with c assms have "d < ?n"
          and "\<forall>l \<in> set (listeners s). lid l = d \<longrightarrow> kind l = DidDelete \<and> watched l = fst x"
          unfolding owns_def by blast+
        then show ?thesis by (auto simp: ls nd)
      qed
    qed
  qed
qed

lemma owns_fetchDone: "owns s \<Longrightarrow> owns (fetchDone e p r s)"
proof (cases "find (\<lambda>t. promise t = p) (inFlight s)")
  case None
  assume "owns s"
  with None show ?thesis by (simp add: fetchDone_none)
next
  case (Some t)
  assume o: "owns s"
  show ?thesis
  proof (cases r)
    case (Inl err)
    with Some o show ?thesis by (simp add: fetchDone_failed owns_settle owns_inFlight)
  next
    case (Inr content)
    with Some o show ?thesis by (simp add: fetchDone_ok owns_resume owns_inFlight)
  qed
qed

lemma owns_step: "owns s \<Longrightarrow> owns (step e ev s)"
  by (cases ev) (simp_all add: owns_loadStyles owns_fetchDone owns_fileChanged owns_fileDeleted owns_dispose)

lemma owns_run: "owns s \<Longrightarrow> owns (run e evs s)"
proof (induction evs arbitrary: s)
  case Nil
  then show ?case by (simp add: run_def)
next
  case (Cons ev evs)
  from Cons.prems have "owns (step e ev s)" by (rule owns_step)
  then have "owns (run e evs (step e ev s))" by (rule Cons.IH)
  then show ?case by (simp add: run_def)
qed

lemma owns_reachable: "owns (run e evs new_Themes)"
  by (rule owns_run) (simp add: owns_def new_Themes_def)

text \<open>The subscriptions of a stored theme are released by the event of their kind.\<close>

lemma change_releases_own:
  assumes "owns s" and "map_get (observedThemes s) k = Some th" and "onDidChange th = Some d"
  shows "d \<notin> lids (fileChanged k s)"
proof
  assume "d \<in> lids (fileChanged k s)"
  then obtain l where l: "l \<in> set (listeners (fileChanged k s))" and d: "lid l = d"
    by (auto simp: lids_def)
  from l have old: "l \<in> set (listeners s)"
    by (simp add: fileChanged_def fold_fire_listeners)
  from assms(2) have "(k, th) \<in> set (observedThemes s)" by (rule map_get_in)
  with assms(1,3) old d have "kind l = DidChange \<and> watched l = k"
    unfolding owns_def by fastforce
  with old have "lid l \<notin> lids (fileChanged k s)"
    by (simp add: fileChanged_detaches)
  with l show False by (auto simp: lids_def)
qed

lemma delete_releases_own:
  assumes "owns s" and "map_get (observedThemes s) k = Some th" and "onDidDelete th = Some d"
  shows "d \<notin> lids (fileDeleted k s)"
proof
  assume "d \<in> lids (fileDeleted k s)"
  then obtain l where l: "l \<in> set (listeners (fileDeleted k s))" and d: "lid l = d"
    by (auto simp: lids_def)
  from l have old: "l \<in> set (listeners s)"
    by (simp add: fileDeleted_def fold_fire_listeners)
  from assms(2) have "(k, th) \<in> set (observedThemes s)" by (rule map_get_in)
  with assms(1,3) old d have "kind l = DidDelete \<and> watched l = k"
    unfolding owns_def by fastforce
  with old have "lid l \<notin> lids (fileDeleted k s)"
    by (simp add: fileDeleted_detaches)
  with l show False by (auto simp: lids_def)
qed

lemma dispose_releases:
  assumes "map_get (observedThemes s) k = Some th"
  shows "onDidChange th = Some d \<Longrightarrow> d \<notin> lids (dispose s)"
    and "onDidDelete th = Some d \<Longrightarrow> d \<notin> lids (dispose s)"
proof -
  from assms have "(k, th) \<in> set (observedThemes s)" by (rule map_get_in)
  then have "onDidChange th = Some d \<or> onDidDelete th = Some d \<Longrightarrow> d \<in> held (observedThemes s)"
    by (force simp: held_def)
  then show "onDidChange th = Some d \<Longrightarrow> d \<notin> lids (dispose s)"
    and "onDidDelete th = Some d \<Longrightarrow> d \<notin> lids (dispose s)"
    by (auto simp: lids_def dispose_fields)
qed

lemma demo_paths: "getPathsFromConf demo_env demo_conf (Some demo_root) = [demo_key]"
  by (simp add: getPathsFromConf_def demo_conf_def normalizePaths_def normalize_entry_def demo_env_def
      demo_root_def demo_key_def isRemotePath_def startsWith_def posix_resolve_def posix_relative_def
      segments_def set_add_def demo_process_def)

lemma demo_classify: "classify demo_key = File"
  by (simp add: classify_def demo_key_def isRemotePath_def startsWith_def isVirtualPath_def
      is_scheme_char_def)

lemma demo_pattern: "watcherPattern demo_env File demo_key = Some demo_key"
  by (simp add: watcherPattern_def)

lemma demo_run_load:
  "run demo_env [demo_load] new_Themes =
     \<lparr>observedThemes = [], listeners = [], nextDisposable = 0,
      inFlight = [\<lparr>promise = 0, key = demo_key, caller = FromLoadStyles\<rparr>],
      nextPromise = 1, fetched = [demo_key], settled = [], refreshes = 0\<rparr>"
  by (simp add: run_def demo_load_def loadStyles_def demo_paths registerTheme_def new_Themes_def Let_def)

lemma demo_run_load2:
  "run demo_env [demo_load, demo_load] new_Themes =
     \<lparr>observedThemes = [], listeners = [], nextDisposable = 0,
      inFlight = [\<lparr>promise = 0, key = demo_key, caller = FromLoadStyles\<rparr>,
                  \<lparr>promise = 1, key = demo_key, caller = FromLoadStyles\<rparr>],
      nextPromise = 2, fetched = [demo_key, demo_key], settled = [], refreshes = 0\<rparr>"
  by (simp add: run_def demo_load_def loadStyles_def demo_paths registerTheme_def new_Themes_def Let_def)

lemma demo_run_loaded:
  "run demo_env [demo_load, FetchDone 0 (Inr content)] new_Themes =
     \<lparr>observedThemes = [(demo_key, demo_theme content 0)],
      listeners = [\<lparr>lid = 0, kind = DidChange, watched = demo_key\<rparr>,
                   \<lparr>lid = 1, kind = DidDelete, watched = demo_key\<rparr>],
      nextDisposable = 2, inFlight = [], nextPromise = 1, fetched = [demo_key],
      settled = [(0, Inr ((demo_theme content 0)\<lparr>registered := Some True\<rparr>))], refreshes = 0\<rparr>"
  by (simp add: run_def demo_load_def loadStyles_def demo_paths registerTheme_def new_Themes_def
      fetchDone_def registerTheme_resume_def demo_pattern demo_classify settle_def demo_theme_def Let_def)

lemma demo_run_changed:
  "run demo_env [demo_load, FetchDone 0 (Inr content), FileChanged demo_key] new_Themes =
     \<lparr>observedThemes = [],
      listeners = [\<lparr>lid = 1, kind = DidDelete, watched = demo_key\<rparr>],
      nextDisposable = 2,
      inFlight = [\<lparr>promise = 1, key = demo_key, caller = FromChangeHandler\<rparr>],
      nextPromise = 2, fetched = [demo_key, demo_key],
      settled = [(0, Inr ((demo_theme content 0)\<lparr>registered := Some True\<rparr>))], refreshes = 0\<rparr>"
proof -
  have "run demo_env [demo_load, FetchDone 0 (Inr content), FileChanged demo_key] new_Themes
      = fileChanged demo_key (run demo_env [demo_load, FetchDone 0 (Inr content)] new_Themes)"
    by (simp add: run_def)
  then show ?thesis
    unfolding demo_run_loaded
    by (simp add: fileChanged_def fire_def onDidChange_handler_def dispose_listener_def
        map_delete_def registerTheme_def Let_def)
qed

lemma demo_run_reloaded:
  "run demo_env [demo_load, FetchDone 0 (Inr content), FileChanged demo_key, FetchDone 1 (Inr content')] new_Themes =
     \<lparr>observedThemes = [(demo_key, demo_theme content' 2)],
      listeners = [\<lparr>lid = 1, kind = DidDelete, watched = demo_key\<rparr>,
                   \<lparr>lid = 2, kind = DidChange, watched = demo_key\<rparr>,
                   \<lparr>lid = 3, kind = DidDelete, watched = demo_key\<rparr>],
      nextDisposable = 4, inFlight = [], nextPromise = 2, fetched = [demo_key, demo_key],
      settled = [(0, Inr ((demo_theme content 0)\<lparr>registered := Some True\<rparr>)),
                 (1, Inr ((demo_theme content' 2)\<lparr>registered := Some True\<rparr>))], refreshes = 1\<rparr>"
proof -
  have "run demo_env [demo_load, FetchDone 0 (Inr content), FileChanged demo_key, FetchDone 1 (Inr content')] new_Themes
      = fetchDone demo_env 1 (Inr content')
          (run demo_env [demo_load, FetchDone 0 (Inr content), FileChanged demo_key] new_Themes)"
    by (simp add: run_def)
  then show ?thesis
    unfolding demo_run_changed
    by (simp add: fetchDone_def registerTheme_resume_def demo_pattern demo_classify settle_def
        demo_theme_def Let_def numeral_2_eq_2 numeral_3_eq_3)
qed

lemma demo_run_disposed:
  "listeners (run demo_env [demo_load, FetchDone 0 (Inr content), FileChanged demo_key,
      FetchDone 1 (Inr content'), Dispose] new_Themes)
   = [\<lparr>lid = 1, kind = DidDelete, watched = demo_key\<rparr>]"
proof -
  have "run demo_env [demo_load, FetchDone 0 (Inr content), FileChanged demo_key,
      FetchDone 1 (Inr content'), Dispose] new_Themes
      = dispose (run demo_env [demo_load, FetchDone 0 (Inr content), FileChanged demo_key,
           FetchDone 1 (Inr content')] new_Themes)"
    by (simp add: run_def)
  then show ?thesis
    unfolding demo_run_reloaded
    by (simp add: dispose_fields demo_theme_def)
qed

lemma map_filter_without:
  "List.map_filter (map_get (map_delete k m)) ks = List.map_filter (map_get m) (filter (\<lambda>k'. k' \<noteq> k) ks)"
  by (induction ks) (auto simp: map_filter_simps map_get_delete split: option.splits)

lemma getRegisteredStyles_without:
  assumes "observedThemes s' = map_delete k (observedThemes s)"
  shows "getRegisteredStyles e conf root s'
     = List.map_filter (map_get (observedThemes s)) (filter (\<lambda>k'. k' \<noteq> k) (getPathsFromConf e conf root))"
  by (simp add: getRegisteredStyles_def assms map_filter_without)

lemma fetchDone_ok_listeners:
  assumes "find (\<lambda>t. promise t = p) (inFlight s) = Some t"
  shows "listeners (fetchDone e p (Inr content) s) =
     (if watcherPattern e (classify (key t)) (key t) = None then listeners s
      else listeners s @ [\<lparr>lid = nextDisposable s, kind = DidChange, watched = key t\<rparr>,
                          \<lparr>lid = Suc (nextDisposable s), kind = DidDelete, watched = key t\<rparr>])"
    and "refreshes (fetchDone e p (Inr content) s) =
     (if caller t = FromChangeHandler then Suc (refreshes s) else refreshes s)"
  using assms by (simp_all add: fetchDone_ok resume_listeners resume_refreshes)

lemma fetchDone_failed_settled:
  assumes "find (\<lambda>t. promise t = p) (inFlight s) = Some t"
  shows "settled (fetchDone e p (Inl err) s) = settled s @ [(p, Inl err)]"
    and "observedThemes (fetchDone e p (Inl err) s) = observedThemes s"
  using assms by (simp_all add: fetchDone_failed)

text \<open>
  Claim C1, as the code has it. The class keeps no record of the resolutions in
  progress, so requests are not coalesced: when \<open>loadStyles\<close> is called \<open>n\<close> times for
  a configuration that references a key which is not registered, and no resolution
  completes in between, the content of that key is requested \<open>n\<close> times, once per call.
  A key that is registered is not requested again and the stored record is returned.
  Every pending call is settled by the outcome of its own request: rejected when that
  request fails, fulfilled with the record built from its content otherwise.
\<close>

theorem one_fetch_per_request:
  "(k \<in> set (getPathsFromConf e conf root) \<and> map_get (observedThemes s) k = None \<longrightarrow>
      count_list (fetched (run e (replicate n (LoadStyles conf root)) s)) k = count_list (fetched s) k + n) \<and>
   (k \<in> set (getPathsFromConf e conf root) \<and> map_get (observedThemes s) k = Some th \<longrightarrow>
      count_list (fetched (run e (replicate n (LoadStyles conf root)) s)) k = count_list (fetched s) k \<and>
      settled (registerTheme c k s) = settled s @ [(nextPromise s, Inr th)]) \<and>
   (find (\<lambda>t. promise t = p) (inFlight s) = Some t \<longrightarrow>
      settled (fetchDone e p (Inl err) s) = settled s @ [(p, Inl err)] \<and>
      settled (fetchDone e p (Inr content) s)
        = settled s @ [(p, Inr ((stored_theme e s (key t) content)\<lparr>registered := Some True\<rparr>))])"
proof (intro conjI impI)
  assume "k \<in> set (getPathsFromConf e conf root) \<and> map_get (observedThemes s) k = None"
  then show "count_list (fetched (run e (replicate n (LoadStyles conf root)) s)) k = count_list (fetched s) k + n"
    by (simp add: count_fetched_loads)
next
  assume a: "k \<in> set (getPathsFromConf e conf root) \<and> map_get (observedThemes s) k = Some th"
  then show "count_list (fetched (run e (replicate n (LoadStyles conf root)) s)) k = count_list (fetched s) k"
    by (simp add: count_fetched_loads)
  from a show "settled (registerTheme c k s) = settled s @ [(nextPromise s, Inr th)]"
    by (simp add: registerTheme_hit)
next
  assume f: "find (\<lambda>t. promise t = p) (inFlight s) = Some t"
  then show "settled (fetchDone e p (Inl err) s) = settled s @ [(p, Inl err)]"
    by (rule fetchDone_failed_settled)
  from f show "settled (fetchDone e p (Inr content) s)
        = settled s @ [(p, Inr ((stored_theme e s (key t) content)\<lparr>registered := Some True\<rparr>))]"
    by (rule fetchDone_ok_stored)
qed

theorem one_fetch_per_request_witness:
  "demo_key \<in> set (getPathsFromConf demo_env demo_conf (Some demo_root)) \<and>
   map_get (observedThemes new_Themes) demo_key = None \<and>
   count_list (fetched (run demo_env (replicate 3 demo_load) new_Themes)) demo_key = 3 \<and>
   map_get (observedThemes (run demo_env [demo_load, FetchDone 0 (Inr ''h1 {}'')] new_Themes)) demo_key
     = Some (demo_theme ''h1 {}'' 0) \<and>
   count_list (fetched (run demo_env (replicate 3 demo_load)
       (run demo_env [demo_load, FetchDone 0 (Inr ''h1 {}'')] new_Themes))) demo_key = 1 \<and>
   find (\<lambda>t. promise t = 1) (inFlight (run demo_env [demo_load, demo_load] new_Themes))
     = Some \<lparr>promise = 1, key = demo_key, caller = FromLoadStyles\<rparr> \<and>
   settled (fetchDone demo_env 1 (Inl Aborted) (run demo_env [demo_load, demo_load] new_Themes))
     = [(1, Inl Aborted)]"
proof -
  have k: "demo_key \<in> set (getPathsFromConf demo_env demo_conf (Some demo_root))"
    by (simp add: demo_paths)
  have n: "map_get (observedThemes new_Themes) demo_key = None"
    by (simp add: new_Themes_def)
  have r: "map_get (observedThemes (run demo_env [demo_load, FetchDone 0 (Inr ''h1 {}'')] new_Themes)) demo_key
     = Some (demo_theme ''h1 {}'' 0)"
    by (simp add: demo_run_loaded)
  have f: "find (\<lambda>t. promise t = 1) (inFlight (run demo_env [demo_load, demo_load] new_Themes))
     = Some \<lparr>promise = 1, key = demo_key, caller = FromLoadStyles\<rparr>"
    by (simp add: demo_run_load2)
  have c0: "count_list (fetched new_Themes) demo_key = 0"
    by (simp add: new_Themes_def)
  have c1: "count_list (fetched (run demo_env [demo_load, FetchDone 0 (Inr ''h1 {}'')] new_Themes)) demo_key = 1"
    by (simp add: demo_run_loaded)
  have s0: "settled (run demo_env [demo_load, demo_load] new_Themes) = []"
    by (simp add: demo_run_load2)
  from one_fetch_per_request [of demo_key demo_env demo_conf "Some demo_root" new_Themes 3]
    one_fetch_per_request [of demo_key demo_env demo_conf "Some demo_root"
      "run demo_env [demo_load, FetchDone 0 (Inr ''h1 {}'')] new_Themes" 3 "demo_theme ''h1 {}'' 0"]
    one_fetch_per_request [where p = 1 and s = "run demo_env [demo_load, demo_load] new_Themes"
      and e = demo_env and err = Aborted and t = "\<lparr>promise = 1, key = demo_key, caller = FromLoadStyles\<rparr>"]
    k n r f c0 c1 s0
  show ?thesis by (simp add: demo_load_def)
qed

text \<open>
  Claim C1 as stated fails: two calls of \<open>loadStyles\<close> for the same unregistered key,
  the second made while the first resolution is pending, request the content twice, and
  the two callers see different outcomes when one request succeeds and the other fails.
\<close>

theorem coalescing_counterexample:
  "demo_key \<in> set (getPathsFromConf demo_env demo_conf (Some demo_root)) \<and>
   map_get (observedThemes new_Themes) demo_key = None \<and>
   inFlight (run demo_env [demo_load] new_Themes) = [\<lparr>promise = 0, key = demo_key, caller = FromLoadStyles\<rparr>] \<and>
   fetched (run demo_env [demo_load, demo_load] new_Themes) = [demo_key, demo_key] \<and>
   settled (run demo_env [demo_load, demo_load, FetchDone 0 (Inr ''h1 {}''), FetchDone 1 (Inl Aborted)] new_Themes)
     = [(0, Inr ((demo_theme ''h1 {}'' 0)\<lparr>registered := Some True\<rparr>)), (1, Inl Aborted)]"
proof -
  have "run demo_env [demo_load, demo_load, FetchDone 0 (Inr ''h1 {}''), FetchDone 1 (Inl Aborted)] new_Themes
     = fetchDone demo_env 1 (Inl Aborted) (fetchDone demo_env 0 (Inr ''h1 {}'')
         (run demo_env [demo_load, demo_load] new_Themes))"
    by (simp add: run_def)
  then have "settled (run demo_env [demo_load, demo_load, FetchDone 0 (Inr ''h1 {}''), FetchDone 1 (Inl Aborted)] new_Themes)
     = [(0, Inr ((demo_theme ''h1 {}'' 0)\<lparr>registered := Some True\<rparr>)), (1, Inl Aborted)]"
    unfolding demo_run_load2
    by (simp add: fetchDone_def registerTheme_resume_def demo_pattern demo_classify settle_def
        demo_theme_def Let_def)
  moreover have "map_get (observedThemes new_Themes) demo_key = None"
    by (simp add: new_Themes_def)
  ultimately show ?thesis
    by (simp add: demo_paths demo_run_load demo_run_load2)
qed

text \<open>A key that is not in the map stays out of it through a run that is quiet for it.\<close>

lemma absent_step:
  assumes "map_get (observedThemes s) k = None" and "\<not> completes k s ev"
  shows "map_get (observedThemes (step e ev s)) k = None"
proof (cases ev)
  case (LoadStyles conf root)
  with assms show ?thesis by simp
next
  case (FetchDone p result)
  show ?thesis
  proof (cases "find (\<lambda>t. promise t = p) (inFlight s)")
    case None
    with FetchDone assms show ?thesis by (simp add: fetchDone_none)
  next
    case (Some t)
    show ?thesis
    proof (cases result)
      case (Inl err)
      with FetchDone Some assms show ?thesis by (simp add: fetchDone_failed)
    next
      case (Inr content)
      with FetchDone Some assms have "key t \<noteq> k"
        by (simp add: completes_def)
      with FetchDone Some Inr assms show ?thesis
        by (simp add: fetchDone_ok resume_observed map_get_set)
    qed
  qed
next
  case (FileChanged f)
  with assms fileChanged_observed [of f s] show ?thesis
    by (auto simp: map_get_delete)
next
  case (FileDeleted f)
  with assms show ?thesis
    by (simp add: fileDeleted_observed map_get_delete)
next
  case Dispose
  then show ?thesis by (simp add: dispose_fields)
qed

lemma absent_run:
  "map_get (observedThemes s) k = None \<Longrightarrow> quiet e k s evs \<Longrightarrow>
   map_get (observedThemes (run e evs s)) k = None"
proof (induction evs arbitrary: s)
  case Nil
  then show ?case by (simp add: run_def)
next
  case (Cons ev evs)
  from Cons.prems have "map_get (observedThemes (step e ev s)) k = None"
    by (simp add: absent_step)
  moreover from Cons.prems have "quiet e k (step e ev s) evs" by simp
  ultimately have "map_get (observedThemes (run e evs (step e ev s))) k = None"
    by (rule Cons.IH)
  then show ?case by (simp add: run_def)
qed

lemma map_filter_absent:
  "f k = None \<Longrightarrow> List.map_filter f ks = List.map_filter f (filter (\<lambda>k'. k' \<noteq> k) ks)"
  by (induction ks) (auto simp: map_filter_simps split: option.splits)

text \<open>
  Claim C2, as the code has it. When the change event of a key fires, the stale record
  is removed at once, and the key stays out of the map until a resolution of the key
  completes, be it the one the handler started or another one that is pending: through
  every run of events that is quiet for the key, \<open>getRegisteredStyles\<close> returns the
  records of the other keys only and \<open>registerTheme\<close> for the key requests the content
  again. When the content of a pending call arrives, the new record is stored and its
  two listeners are subscribed in the same step.
\<close>

theorem change_unregisters_until_refetched:
  "(l \<in> set (listeners s) \<and> kind l = DidChange \<and> watched l = k \<longrightarrow>
      map_get (observedThemes (fileChanged k s)) k = None \<and>
      getRegisteredStyles e conf root (fileChanged k s)
        = List.map_filter (map_get (observedThemes s)) (filter (\<lambda>k'. k' \<noteq> k) (getPathsFromConf e conf root)) \<and>
      fetched (registerTheme c k (fileChanged k s)) = fetched (fileChanged k s) @ [k] \<and>
      (quiet e k (fileChanged k s) evs \<longrightarrow>
         map_get (observedThemes (run e evs (fileChanged k s))) k = None \<and>
         getRegisteredStyles e conf root (run e evs (fileChanged k s))
           = List.map_filter (map_get (observedThemes (run e evs (fileChanged k s))))
               (filter (\<lambda>k'. k' \<noteq> k) (getPathsFromConf e conf root)) \<and>
         fetched (registerTheme c k (run e evs (fileChanged k s)))
           = fetched (run e evs (fileChanged k s)) @ [k])) \<and>
   (find (\<lambda>t. promise t = p) (inFlight s) = Some t \<longrightarrow>
      map_get (observedThemes (fetchDone e p (Inr content) s)) (key t)
        = Some (stored_theme e s (key t) content) \<and>
      listeners (fetchDone e p (Inr content) s) =
        (if watcherPattern e (classify (key t)) (key t) = None then listeners s
         else listeners s @ [\<lparr>lid = nextDisposable s, kind = DidChange, watched = key t\<rparr>,
                             \<lparr>lid = Suc (nextDisposable s), kind = DidDelete, watched = key t\<rparr>]))"
proof (intro conjI impI)
  assume a: "l \<in> set (listeners s) \<and> kind l = DidChange \<and> watched l = k"
  then have del: "observedThemes (fileChanged k s) = map_delete k (observedThemes s)"
    by (auto intro: fileChanged_effect(1))
  then show none: "map_get (observedThemes (fileChanged k s)) k = None"
    by (simp add: map_get_delete_same)
  from del show "getRegisteredStyles e conf root (fileChanged k s)
        = List.map_filter (map_get (observedThemes s)) (filter (\<lambda>k'. k' \<noteq> k) (getPathsFromConf e conf root))"
    by (rule getRegisteredStyles_without)
  from none show "fetched (registerTheme c k (fileChanged k s)) = fetched (fileChanged k s) @ [k]"
    by (rule registerTheme_miss)
  assume "quiet e k (fileChanged k s) evs"
  with none show later: "map_get (observedThemes (run e evs (fileChanged k s))) k = None"
    by (rule absent_run)
  then show "getRegisteredStyles e conf root (run e evs (fileChanged k s))
           = List.map_filter (map_get (observedThemes (run e evs (fileChanged k s))))
               (filter (\<lambda>k'. k' \<noteq> k) (getPathsFromConf e conf root))"
    unfolding getRegisteredStyles_def by (rule map_filter_absent)
  from later show "fetched (registerTheme c k (run e evs (fileChanged k s)))
           = fetched (run e evs (fileChanged k s)) @ [k]"
    by (rule registerTheme_miss)
next
  assume f: "find (\<lambda>t. promise t = p) (inFlight s) = Some t"
  then show "map_get (observedThemes (fetchDone e p (Inr content) s)) (key t)
        = Some (stored_theme e s (key t) content)"
    by (rule fetchDone_ok_stored)
  from f show "listeners (fetchDone e p (Inr content) s) =
        (if watcherPattern e (classify (key t)) (key t) = None then listeners s
         else listeners s @ [\<lparr>lid = nextDisposable s, kind = DidChange, watched = key t\<rparr>,
                             \<lparr>lid = Suc (nextDisposable s), kind = DidDelete, watched = key t\<rparr>])"
    by (rule fetchDone_ok_listeners)
qed

lemma demo_changed_step: "demo_changed = fileChanged demo_key demo_loaded"
  by (simp add: demo_changed_def demo_loaded_def run_def)

lemma demo_stored: "stored_theme demo_env s demo_key content = demo_theme content (nextDisposable s)"
  by (simp add: stored_theme_def demo_classify demo_pattern demo_theme_def)

theorem change_unregisters_until_refetched_witness:
  "\<lparr>lid = 0, kind = DidChange, watched = demo_key\<rparr> \<in> set (listeners demo_loaded) \<and>
   getRegisteredStyles demo_env demo_conf (Some demo_root) demo_loaded = [demo_theme ''h1 {}'' 0] \<and>
   map_get (observedThemes (fileChanged demo_key demo_loaded)) demo_key = None \<and>
   getRegisteredStyles demo_env demo_conf (Some demo_root) (fileChanged demo_key demo_loaded) = [] \<and>
   quiet demo_env demo_key (fileChanged demo_key demo_loaded) [demo_load, FetchDone 1 (Inl Aborted)] \<and>
   map_get (observedThemes (run demo_env [demo_load, FetchDone 1 (Inl Aborted)]
     (fileChanged demo_key demo_loaded))) demo_key = None \<and>
   find (\<lambda>t. promise t = 1) (inFlight demo_changed)
     = Some \<lparr>promise = 1, key = demo_key, caller = FromChangeHandler\<rparr> \<and>
   map_get (observedThemes (fetchDone demo_env 1 (Inr ''h2 {}'') demo_changed)) demo_key
     = Some (demo_theme ''h2 {}'' 2)"
proof -
  have q: "quiet demo_env demo_key (fileChanged demo_key demo_loaded) [demo_load, FetchDone 1 (Inl Aborted)]"
    by (simp add: completes_def demo_load_def)
  have l: "\<lparr>lid = 0, kind = DidChange, watched = demo_key\<rparr> \<in> set (listeners demo_loaded)"
    by (simp add: demo_loaded_def demo_run_loaded)
  have g: "getRegisteredStyles demo_env demo_conf (Some demo_root) demo_loaded = [demo_theme ''h1 {}'' 0]"
    by (simp add: demo_loaded_def demo_run_loaded getRegisteredStyles_def demo_paths map_filter_simps)
  have f: "find (\<lambda>t. promise t = 1) (inFlight demo_changed)
     = Some \<lparr>promise = 1, key = demo_key, caller = FromChangeHandler\<rparr>"
    by (simp add: demo_changed_def demo_run_changed)
  have n: "nextDisposable demo_changed = 2"
    by (simp add: demo_changed_def demo_run_changed)
  from change_unregisters_until_refetched [where l = "\<lparr>lid = 0, kind = DidChange, watched = demo_key\<rparr>"
      and s = demo_loaded and k = demo_key and e = demo_env and conf = demo_conf and root = "Some demo_root"
      and evs = "[demo_load, FetchDone 1 (Inl Aborted)]"]
    change_unregisters_until_refetched [where p = 1 and s = demo_changed and e = demo_env
      and content = "''h2 {}''" and t = "\<lparr>promise = 1, key = demo_key, caller = FromChangeHandler\<rparr>"]
    l g f n q
  show ?thesis by (simp add: demo_paths map_filter_simps demo_stored)
qed

text \<open>
  Claim C2 as stated fails: after the change event and before the new content has
  arrived, the map has no record for the key, \<open>getRegisteredStyles\<close> returns no theme
  for a configuration that returned one before, and a call of \<open>loadStyles\<close> requests
  the content a third time.
\<close>

theorem half_invalidated_counterexample:
  "getRegisteredStyles demo_env demo_conf (Some demo_root)
     (run demo_env [demo_load, FetchDone 0 (Inr ''h1 {}'')] new_Themes) = [demo_theme ''h1 {}'' 0] \<and>
   map_get (observedThemes (run demo_env [demo_load, FetchDone 0 (Inr ''h1 {}''), FileChanged demo_key] new_Themes))
     demo_key = None \<and>
   inFlight (run demo_env [demo_load, FetchDone 0 (Inr ''h1 {}''), FileChanged demo_key] new_Themes)
     = [\<lparr>promise = 1, key = demo_key, caller = FromChangeHandler\<rparr>] \<and>
   getRegisteredStyles demo_env demo_conf (Some demo_root)
     (run demo_env [demo_load, FetchDone 0 (Inr ''h1 {}''), FileChanged demo_key] new_Themes) = [] \<and>
   fetched (run demo_env [demo_load, FetchDone 0 (Inr ''h1 {}''), FileChanged demo_key, demo_load] new_Themes)
     = [demo_key, demo_key, demo_key]"
proof -
  have "run demo_env [demo_load, FetchDone 0 (Inr ''h1 {}''), FileChanged demo_key, demo_load] new_Themes
     = loadStyles demo_env demo_conf (Some demo_root)
         (run demo_env [demo_load, FetchDone 0 (Inr ''h1 {}''), FileChanged demo_key] new_Themes)"
    by (simp add: run_def demo_load_def)
  then have "fetched (run demo_env [demo_load, FetchDone 0 (Inr ''h1 {}''), FileChanged demo_key, demo_load] new_Themes)
     = [demo_key, demo_key, demo_key]"
    unfolding demo_run_changed
    by (simp add: loadStyles_def demo_paths registerTheme_def Let_def)
  then show ?thesis
    by (simp add: demo_run_loaded demo_run_changed getRegisteredStyles_def demo_paths map_filter_simps)
qed

text \<open>
  Claim C5, as the code has it. When a resolution succeeds, the record stored in the map
  has the content, the key as its path, the kind of the key and the two listeners when
  there is a watcher pattern, and its field \<open>registered\<close> is not set; the promise of the
  call is fulfilled with a copy of that record in which \<open>registered\<close> is true.
\<close>

theorem stored_record_not_marked:
  assumes "find (\<lambda>t. promise t = p) (inFlight s) = Some t"
  shows "\<exists>th. map_get (observedThemes (fetchDone e p (Inr content) s)) (key t) = Some th \<and>
     registered th = None \<and> css th = content \<and> path th = key t \<and> themeType th = classify (key t) \<and>
     (onDidChange th = None \<longleftrightarrow> watcherPattern e (classify (key t)) (key t) = None) \<and>
     (onDidDelete th = None \<longleftrightarrow> watcherPattern e (classify (key t)) (key t) = None) \<and>
     settled (fetchDone e p (Inr content) s) = settled s @ [(p, Inr (th\<lparr>registered := Some True\<rparr>))]"
proof (intro exI conjI)
  show "map_get (observedThemes (fetchDone e p (Inr content) s)) (key t)
      = Some (stored_theme e s (key t) content)"
    using assms by (rule fetchDone_ok_stored)
  show "settled (fetchDone e p (Inr content) s)
      = settled s @ [(p, Inr ((stored_theme e s (key t) content)\<lparr>registered := Some True\<rparr>))]"
    using assms by (rule fetchDone_ok_stored)
  show "onDidChange (stored_theme e s (key t) content) = None
      \<longleftrightarrow> watcherPattern e (classify (key t)) (key t) = None"
    by (simp add: stored_theme_def split: option.splits)
  show "onDidDelete (stored_theme e s (key t) content) = None
      \<longleftrightarrow> watcherPattern e (classify (key t)) (key t) = None"
    by (simp add: stored_theme_def split: option.splits)
qed simp_all

theorem stored_record_not_marked_witness:
  "find (\<lambda>t. promise t = 0) (inFlight (run demo_env [demo_load] new_Themes))
     = Some \<lparr>promise = 0, key = demo_key, caller = FromLoadStyles\<rparr> \<and>
   (\<exists>th. map_get (observedThemes (fetchDone demo_env 0 (Inr ''h1 {}'') (run demo_env [demo_load] new_Themes)))
        demo_key = Some th \<and> registered th = None \<and> css th = ''h1 {}'' \<and>
      settled (fetchDone demo_env 0 (Inr ''h1 {}'') (run demo_env [demo_load] new_Themes))
        = [(0, Inr (th\<lparr>registered := Some True\<rparr>))])"
proof -
  have f: "find (\<lambda>t. promise t = 0) (inFlight (run demo_env [demo_load] new_Themes))
     = Some \<lparr>promise = 0, key = demo_key, caller = FromLoadStyles\<rparr>"
    by (simp add: demo_run_load)
  have s0: "settled (run demo_env [demo_load] new_Themes) = []"
    by (simp add: demo_run_load)
  from stored_record_not_marked [OF f, of demo_env "''h1 {}''"] f s0
  show ?thesis by auto
qed

text \<open>
  Claim C5 as stated fails: after a successful resolution the record in the map has no
  \<open>registered\<close> mark; only the record handed to the caller has it.
\<close>

theorem stored_marked_counterexample:
  "map_get (observedThemes (run demo_env [demo_load, FetchDone 0 (Inr ''h1 {}'')] new_Themes)) demo_key
     = Some \<lparr>css = ''h1 {}'', onDidChange = Some 0, onDidDelete = Some 1, path = demo_key,
            registered = None, themeType = File\<rparr> \<and>
   settled (run demo_env [demo_load, FetchDone 0 (Inr ''h1 {}'')] new_Themes)
     = [(0, Inr \<lparr>css = ''h1 {}'', onDidChange = Some 0, onDidDelete = Some 1, path = demo_key,
            registered = Some True, themeType = File\<rparr>)]"
  by (simp add: demo_run_loaded demo_theme_def)

lemma demo_run_deleted:
  "run demo_env [demo_load, FetchDone 0 (Inr content), FileDeleted demo_key] new_Themes =
     \<lparr>observedThemes = [],
      listeners = [\<lparr>lid = 0, kind = DidChange, watched = demo_key\<rparr>],
      nextDisposable = 2, inFlight = [], nextPromise = 1, fetched = [demo_key],
      settled = [(0, Inr ((demo_theme content 0)\<lparr>registered := Some True\<rparr>))], refreshes = 0\<rparr>"
proof -
  have "run demo_env [demo_load, FetchDone 0 (Inr content), FileDeleted demo_key] new_Themes
      = fileDeleted demo_key (run demo_env [demo_load, FetchDone 0 (Inr content)] new_Themes)"
    by (simp add: run_def)
  then show ?thesis
    unfolding demo_run_loaded
    by (simp add: fileDeleted_def fire_def onDidDelete_handler_def dispose_listener_def
        map_delete_def Let_def)
qed

lemma demo_run_twice:
  "run demo_env [demo_load, demo_load, FetchDone 0 (Inr content), FetchDone 1 (Inr content')] new_Themes =
     \<lparr>observedThemes = [(demo_key, demo_theme content' 2)],
      listeners = [\<lparr>lid = 0, kind = DidChange, watched = demo_key\<rparr>,
                   \<lparr>lid = 1, kind = DidDelete, watched = demo_key\<rparr>,
                   \<lparr>lid = 2, kind = DidChange, watched = demo_key\<rparr>,
                   \<lparr>lid = 3, kind = DidDelete, watched = demo_key\<rparr>],
      nextDisposable = 4, inFlight = [], nextPromise = 2, fetched = [demo_key, demo_key],
      settled = [(0, Inr ((demo_theme content 0)\<lparr>registered := Some True\<rparr>)),
                 (1, Inr ((demo_theme content' 2)\<lparr>registered := Some True\<rparr>))], refreshes = 0\<rparr>"
proof -
  have "run demo_env [demo_load, demo_load, FetchDone 0 (Inr content), FetchDone 1 (Inr content')] new_Themes
      = fetchDone demo_env 1 (Inr content') (fetchDone demo_env 0 (Inr content)
          (run demo_env [demo_load, demo_load] new_Themes))"
    by (simp add: run_def)
  then show ?thesis
    unfolding demo_run_load2
    by (simp add: fetchDone_def registerTheme_resume_def demo_pattern demo_classify settle_def
        demo_theme_def Let_def numeral_2_eq_2 numeral_3_eq_3)
qed

lemma demo_run_twice_disposed:
  "listeners (run demo_env [demo_load, demo_load, FetchDone 0 (Inr content), FetchDone 1 (Inr content'),
      Dispose] new_Themes)
   = [\<lparr>lid = 0, kind = DidChange, watched = demo_key\<rparr>, \<lparr>lid = 1, kind = DidDelete, watched = demo_key\<rparr>]"
proof -
  have "run demo_env [demo_load, demo_load, FetchDone 0 (Inr content), FetchDone 1 (Inr content'),
      Dispose] new_Themes
      = dispose (run demo_env [demo_load, demo_load, FetchDone 0 (Inr content), FetchDone 1 (Inr content')]
           new_Themes)"
    by (simp add: run_def)
  then show ?thesis
    unfolding demo_run_twice
    by (simp add: dispose_fields demo_theme_def)
qed

lemma count_list_replicate: "count_list (replicate n k) k = n"
  by (induction n) simp_all

text \<open>
  Claim C6, as the code has it. In every state the object can reach, for a record in
  the map: its change subscription is no longer subscribed after the change event of
  its key, its delete subscription is no longer subscribed after the delete event of its
  key, and neither of the two is subscribed after \<open>dispose\<close>. \<open>dispose\<close> clears the map
  and is idempotent.
\<close>

theorem subscriptions_released:
  assumes "map_get (observedThemes (run e evs new_Themes)) k = Some th"
  shows "(onDidChange th = Some d \<longrightarrow>
            d \<notin> lids (fileChanged k (run e evs new_Themes)) \<and> d \<notin> lids (dispose (run e evs new_Themes))) \<and>
         (onDidDelete th = Some d \<longrightarrow>
            d \<notin> lids (fileDeleted k (run e evs new_Themes)) \<and> d \<notin> lids (dispose (run e evs new_Themes))) \<and>
         observedThemes (dispose s) = [] \<and> dispose (dispose s) = dispose s"
proof (intro conjI impI)
  have o: "owns (run e evs new_Themes)" by (rule owns_reachable)
  show "d \<notin> lids (fileChanged k (run e evs new_Themes))" if "onDidChange th = Some d"
    using o assms that by (rule change_releases_own)
  show "d \<notin> lids (fileDeleted k (run e evs new_Themes))" if "onDidDelete th = Some d"
    using o assms that by (rule delete_releases_own)
  show "d \<notin> lids (dispose (run e evs new_Themes))" if "onDidChange th = Some d"
    using assms that by (rule dispose_releases)
  show "d \<notin> lids (dispose (run e evs new_Themes))" if "onDidDelete th = Some d"
    using assms that by (rule dispose_releases)
  show "observedThemes (dispose s) = []" by (simp add: dispose_fields)
  show "dispose (dispose s) = dispose s" by (rule dispose_idem)
qed

theorem subscriptions_released_witness:
  "map_get (observedThemes (run demo_env [demo_load, FetchDone 0 (Inr ''h1 {}'')] new_Themes)) demo_key
     = Some (demo_theme ''h1 {}'' 0) \<and>
   onDidChange (demo_theme ''h1 {}'' 0) = Some 0 \<and>
   onDidDelete (demo_theme ''h1 {}'' 0) = Some 1 \<and>
   lids (run demo_env [demo_load, FetchDone 0 (Inr ''h1 {}'')] new_Themes) = {0, 1} \<and>
   0 \<notin> lids (fileChanged demo_key (run demo_env [demo_load, FetchDone 0 (Inr ''h1 {}'')] new_Themes)) \<and>
   1 \<notin> lids (fileDeleted demo_key (run demo_env [demo_load, FetchDone 0 (Inr ''h1 {}'')] new_Themes)) \<and>
   0 \<notin> lids (dispose (run demo_env [demo_load, FetchDone 0 (Inr ''h1 {}'')] new_Themes)) \<and>
   1 \<notin> lids (dispose (run demo_env [demo_load, FetchDone 0 (Inr ''h1 {}'')] new_Themes))"
proof -
  have m: "map_get (observedThemes (run demo_env [demo_load, FetchDone 0 (Inr ''h1 {}'')] new_Themes)) demo_key
     = Some (demo_theme ''h1 {}'' 0)"
    by (simp add: demo_run_loaded)
  have c: "onDidChange (demo_theme ''h1 {}'' 0) = Some 0" and d: "onDidDelete (demo_theme ''h1 {}'' 0) = Some 1"
    by (simp_all add: demo_theme_def)
  have l: "lids (run demo_env [demo_load, FetchDone 0 (Inr ''h1 {}'')] new_Themes) = {0, 1}"
    by (simp add: demo_run_loaded lids_def)
  from subscriptions_released [OF m, of 0] subscriptions_released [OF m, of 1] m c d l
  show ?thesis by simp
qed

text \<open>
  Claim C6 as stated fails: the change event removes the record and leaves its delete
  subscription subscribed, the delete event removes the record and leaves its change
  subscription subscribed, and after a change event, the new resolution and \<open>dispose\<close>
  the delete subscription of the first record is still subscribed. When two resolutions
  of one key were in progress together, the record of the second replaces the record of
  the first in the map, and \<open>dispose\<close> leaves both subscriptions of the first
  subscribed.
\<close>

theorem whole_subscription_counterexample:
  "map_get (observedThemes (run demo_env [demo_load, FetchDone 0 (Inr ''h1 {}'')] new_Themes)) demo_key
     = Some (demo_theme ''h1 {}'' 0) \<and>
   onDidChange (demo_theme ''h1 {}'' 0) = Some 0 \<and>
   onDidDelete (demo_theme ''h1 {}'' 0) = Some 1 \<and>
   map_get (observedThemes (run demo_env [demo_load, FetchDone 0 (Inr ''h1 {}''), FileChanged demo_key] new_Themes))
     demo_key = None \<and>
   1 \<in> lids (run demo_env [demo_load, FetchDone 0 (Inr ''h1 {}''), FileChanged demo_key] new_Themes) \<and>
   map_get (observedThemes (run demo_env [demo_load, FetchDone 0 (Inr ''h1 {}''), FileDeleted demo_key] new_Themes))
     demo_key = None \<and>
   0 \<in> lids (run demo_env [demo_load, FetchDone 0 (Inr ''h1 {}''), FileDeleted demo_key] new_Themes) \<and>
   1 \<in> lids (run demo_env [demo_load, FetchDone 0 (Inr ''h1 {}''), FileChanged demo_key,
                 FetchDone 1 (Inr ''h2 {}''), Dispose] new_Themes) \<and>
   lids (run demo_env [demo_load, demo_load, FetchDone 0 (Inr ''h1 {}''), FetchDone 1 (Inr ''h2 {}''),
           Dispose] new_Themes) = {0, 1}"
proof -
  have "lids (run demo_env [demo_load, demo_load, FetchDone 0 (Inr ''h1 {}''), FetchDone 1 (Inr ''h2 {}''),
           Dispose] new_Themes) = {0, 1}"
    unfolding lids_def demo_run_twice_disposed by auto
  moreover
  have "1 \<in> lids (run demo_env [demo_load, FetchDone 0 (Inr ''h1 {}''), FileChanged demo_key,
                 FetchDone 1 (Inr ''h2 {}''), Dispose] new_Themes)"
    unfolding lids_def demo_run_disposed by simp
  ultimately show ?thesis
    by (simp add: demo_run_loaded demo_run_changed demo_run_deleted lids_def demo_theme_def)
qed

text \<open>
  Claim C7, as the code has it. On a change event of a watched key every change
  listener subscribed for it is detached, the record of the key is removed from the map
  and the content of the key is requested again by a call made from the handler. When
  the content of such a call arrives, a new record with that content is stored under the
  key, a fresh pair of listeners is subscribed for it and the preview is refreshed once;
  when the request of a pending call fails, nothing is stored, no listener is subscribed
  and the preview is not refreshed. On a delete event every delete listener subscribed
  for the key is detached and the record is removed; no content is requested, no call is
  left pending and the preview is not refreshed, and the key stays out of the map
  through every run of events that is quiet for it, that is until a resolution of the
  key completes.
\<close>

theorem watch_event_handlers:
  "(l \<in> set (listeners s) \<and> kind l = DidChange \<and> watched l = k \<longrightarrow>
      lid l \<notin> lids (fileChanged k s) \<and>
      map_get (observedThemes (fileChanged k s)) k = None \<and>
      count_list (fetched s) k < count_list (fetched (fileChanged k s)) k \<and>
      (\<exists>t \<in> set (inFlight (fileChanged k s)). key t = k \<and> caller t = FromChangeHandler)) \<and>
   (find (\<lambda>t. promise t = p) (inFlight s) = Some t \<and> caller t = FromChangeHandler \<and>
    watcherPattern e (classify (key t)) (key t) \<noteq> None \<longrightarrow>
      map_get (observedThemes (fetchDone e p (Inr content) s)) (key t)
        = Some (stored_theme e s (key t) content) \<and>
      css (stored_theme e s (key t) content) = content \<and>
      onDidChange (stored_theme e s (key t) content) = Some (nextDisposable s) \<and>
      onDidDelete (stored_theme e s (key t) content) = Some (Suc (nextDisposable s)) \<and>
      listeners (fetchDone e p (Inr content) s) =
        listeners s @ [\<lparr>lid = nextDisposable s, kind = DidChange, watched = key t\<rparr>,
                       \<lparr>lid = Suc (nextDisposable s), kind = DidDelete, watched = key t\<rparr>] \<and>
      refreshes (fetchDone e p (Inr content) s) = Suc (refreshes s)) \<and>
   (find (\<lambda>t. promise t = p) (inFlight s) = Some t \<longrightarrow>
      observedThemes (fetchDone e p (Inl err) s) = observedThemes s \<and>
      listeners (fetchDone e p (Inl err) s) = listeners s \<and>
      refreshes (fetchDone e p (Inl err) s) = refreshes s) \<and>
   (l \<in> set (listeners s) \<and> kind l = DidDelete \<and> watched l = k \<longrightarrow>
      lid l \<notin> lids (fileDeleted k s) \<and>
      map_get (observedThemes (fileDeleted k s)) k = None \<and>
      fetched (fileDeleted k s) = fetched s \<and>
      inFlight (fileDeleted k s) = inFlight s \<and>
      refreshes (fileDeleted k s) = refreshes s \<and>
      (quiet e k (fileDeleted k s) evs \<longrightarrow>
         map_get (observedThemes (run e evs (fileDeleted k s))) k = None))"
proof (intro conjI impI)
  assume a: "l \<in> set (listeners s) \<and> kind l = DidChange \<and> watched l = k"
  let ?ls = "filter (\<lambda>l. kind l = DidChange \<and> watched l = k) (listeners s)"
  have all: "\<forall>l \<in> set ?ls. kind l = DidChange \<and> watched l = k" by simp
  from a have ne: "?ls \<noteq> []" by (auto simp: filter_empty_conv)
  then have pos: "0 < length ?ls" by simp
  from a show "lid l \<notin> lids (fileChanged k s)"
    by (simp add: fileChanged_detaches)
  from a have "observedThemes (fileChanged k s) = map_delete k (observedThemes s)"
    by (auto intro: fileChanged_effect(1))
  then show "map_get (observedThemes (fileChanged k s)) k = None"
    by (simp add: map_get_delete_same)
  from fold_fire_change [OF all, of s]
  have "fetched (fileChanged k s) = fetched s @ replicate (length ?ls) k"
    by (simp add: fileChanged_def)
  with pos show "count_list (fetched s) k < count_list (fetched (fileChanged k s)) k"
    by (simp add: count_list_replicate)
  from fold_fire_change [OF all, of s]
  have "map (\<lambda>t. (key t, caller t)) (inFlight (fileChanged k s))
      = map (\<lambda>t. (key t, caller t)) (inFlight s) @ replicate (length ?ls) (k, FromChangeHandler)"
    by (simp add: fileChanged_def)
  with pos have "(k, FromChangeHandler) \<in> set (map (\<lambda>t. (key t, caller t)) (inFlight (fileChanged k s)))"
    by simp
  then show "\<exists>t \<in> set (inFlight (fileChanged k s)). key t = k \<and> caller t = FromChangeHandler"
    by auto
next
  assume a: "find (\<lambda>t. promise t = p) (inFlight s) = Some t \<and> caller t = FromChangeHandler \<and>
    watcherPattern e (classify (key t)) (key t) \<noteq> None"
  then have f: "find (\<lambda>t. promise t = p) (inFlight s) = Some t" by simp
  from f show "map_get (observedThemes (fetchDone e p (Inr content) s)) (key t)
        = Some (stored_theme e s (key t) content)"
    by (rule fetchDone_ok_stored)
  show "css (stored_theme e s (key t) content) = content" by simp
  from a show "onDidChange (stored_theme e s (key t) content) = Some (nextDisposable s)"
    by (auto simp: stored_theme_def)
  from a show "onDidDelete (stored_theme e s (key t) content) = Some (Suc (nextDisposable s))"
    by (auto simp: stored_theme_def)
  from a show "listeners (fetchDone e p (Inr content) s) =
        listeners s @ [\<lparr>lid = nextDisposable s, kind = DidChange, watched = key t\<rparr>,
                       \<lparr>lid = Suc (nextDisposable s), kind = DidDelete, watched = key t\<rparr>]"
    by (simp add: fetchDone_ok_listeners [OF f])
  from a show "refreshes (fetchDone e p (Inr content) s) = Suc (refreshes s)"
    by (simp add: fetchDone_ok_listeners [OF f])
next
  assume f: "find (\<lambda>t. promise t = p) (inFlight s) = Some t"
  then show "observedThemes (fetchDone e p (Inl err) s) = observedThemes s"
    by (simp add: fetchDone_failed)
  from f show "listeners (fetchDone e p (Inl err) s) = listeners s"
    by (simp add: fetchDone_failed)
  from f show "refreshes (fetchDone e p (Inl err) s) = refreshes s"
    by (simp add: fetchDone_failed settle_refreshes)
next
  assume a: "l \<in> set (listeners s) \<and> kind l = DidDelete \<and> watched l = k"
  then show "lid l \<notin> lids (fileDeleted k s)"
    by (simp add: fileDeleted_detaches)
  from a have "observedThemes (fileDeleted k s) = map_delete k (observedThemes s)"
    by (auto intro: fileDeleted_effect(1))
  then show none: "map_get (observedThemes (fileDeleted k s)) k = None"
    by (simp add: map_get_delete_same)
  show "map_get (observedThemes (run e evs (fileDeleted k s))) k = None"
    if "quiet e k (fileDeleted k s) evs"
    using none that by (rule absent_run)
  from a show "fetched (fileDeleted k s) = fetched s"
    by (auto intro: fileDeleted_effect(2))
  from a show "inFlight (fileDeleted k s) = inFlight s"
    by (auto intro: fileDeleted_effect(3))
  from a show "refreshes (fileDeleted k s) = refreshes s"
    by (auto intro: fileDeleted_effect(4))
qed

theorem watch_event_handlers_witness:
  "\<lparr>lid = 0, kind = DidChange, watched = demo_key\<rparr> \<in> set (listeners demo_loaded) \<and>
   map_get (observedThemes demo_loaded) demo_key = Some (demo_theme ''h1 {}'' 0) \<and>
   0 \<notin> lids (fileChanged demo_key demo_loaded) \<and>
   map_get (observedThemes (fileChanged demo_key demo_loaded)) demo_key = None \<and>
   find (\<lambda>t. promise t = 1) (inFlight demo_changed)
     = Some \<lparr>promise = 1, key = demo_key, caller = FromChangeHandler\<rparr> \<and>
   watcherPattern demo_env (classify demo_key) demo_key \<noteq> None \<and>
   map_get (observedThemes (fetchDone demo_env 1 (Inr ''h2 {}'') demo_changed)) demo_key
     = Some (demo_theme ''h2 {}'' 2) \<and>
   refreshes (fetchDone demo_env 1 (Inr ''h2 {}'') demo_changed) = 1 \<and>
   observedThemes (fetchDone demo_env 1 (Inl ReadFailed) demo_changed) = [] \<and>
   refreshes (fetchDone demo_env 1 (Inl ReadFailed) demo_changed) = 0 \<and>
   \<lparr>lid = 1, kind = DidDelete, watched = demo_key\<rparr> \<in> set (listeners demo_loaded) \<and>
   1 \<notin> lids (fileDeleted demo_key demo_loaded) \<and>
   map_get (observedThemes (fileDeleted demo_key demo_loaded)) demo_key = None \<and>
   inFlight (fileDeleted demo_key demo_loaded) = [] \<and>
   quiet demo_env demo_key (fileDeleted demo_key demo_loaded) [FileDeleted demo_key, Dispose] \<and>
   map_get (observedThemes (run demo_env [FileDeleted demo_key, Dispose] (fileDeleted demo_key demo_loaded)))
     demo_key = None"
proof -
  have c: "\<lparr>lid = 0, kind = DidChange, watched = demo_key\<rparr> \<in> set (listeners demo_loaded)"
    and d: "\<lparr>lid = 1, kind = DidDelete, watched = demo_key\<rparr> \<in> set (listeners demo_loaded)"
    and m: "map_get (observedThemes demo_loaded) demo_key = Some (demo_theme ''h1 {}'' 0)"
    and i: "inFlight demo_loaded = []"
    by (simp_all add: demo_loaded_def demo_run_loaded)
  have f: "find (\<lambda>t. promise t = 1) (inFlight demo_changed)
     = Some \<lparr>promise = 1, key = demo_key, caller = FromChangeHandler\<rparr>"
    and n: "nextDisposable demo_changed = 2" and r: "refreshes demo_changed = 0"
    and o: "observedThemes demo_changed = []"
    by (simp_all add: demo_changed_def demo_run_changed)
  have w: "watcherPattern demo_env (classify demo_key) demo_key \<noteq> None"
    by (simp add: demo_classify demo_pattern)
  have q: "quiet demo_env demo_key (fileDeleted demo_key demo_loaded) [FileDeleted demo_key, Dispose]"
    by (simp add: completes_def)
  from watch_event_handlers [where l = "\<lparr>lid = 0, kind = DidChange, watched = demo_key\<rparr>"
      and s = demo_loaded and k = demo_key and p = 1
      and t = "\<lparr>promise = 1, key = demo_key, caller = FromChangeHandler\<rparr>" and e = demo_env]
    watch_event_handlers [where l = "\<lparr>lid = 1, kind = DidDelete, watched = demo_key\<rparr>"
      and s = demo_changed and k = demo_key and p = 1
      and t = "\<lparr>promise = 1, key = demo_key, caller = FromChangeHandler\<rparr>" and e = demo_env
      and content = "''h2 {}''" and err = ReadFailed]
    watch_event_handlers [where l = "\<lparr>lid = 1, kind = DidDelete, watched = demo_key\<rparr>"
      and s = demo_loaded and k = demo_key and p = 1
      and t = "\<lparr>promise = 1, key = demo_key, caller = FromChangeHandler\<rparr>" and e = demo_env
      and evs = "[FileDeleted demo_key, Dispose]"]
    c d m i f n r o w q
  show ?thesis by (simp add: demo_stored)
qed

text \<open>
  Claim C7 as stated fails. A delete event does not remove the record for good: a
  resolution of the key that was pending when the file was deleted stores the record
  again when its content arrives, and so does the re-resolution started by a change
  listener that is still subscribed. And a change event whose re-read fails leaves the
  key without record and without fresh listeners, and the preview is not refreshed.
\<close>

theorem removal_and_refresh_counterexample:
  "map_get (observedThemes (run demo_env [demo_load, demo_load, FetchDone 0 (Inr ''h1 {}''),
       FileDeleted demo_key] new_Themes)) demo_key = None \<and>
   map_get (observedThemes (run demo_env [demo_load, demo_load, FetchDone 0 (Inr ''h1 {}''),
       FileDeleted demo_key, FetchDone 1 (Inr ''h2 {}'')] new_Themes)) demo_key
     = Some (demo_theme ''h2 {}'' 2) \<and>
   map_get (observedThemes (run demo_env [demo_load, FetchDone 0 (Inr ''h1 {}''),
       FileDeleted demo_key] new_Themes)) demo_key = None \<and>
   map_get (observedThemes (run demo_env [demo_load, FetchDone 0 (Inr ''h1 {}''),
       FileDeleted demo_key, FileChanged demo_key, FetchDone 1 (Inr ''h2 {}'')] new_Themes)) demo_key
     = Some (demo_theme ''h2 {}'' 2) \<and>
   observedThemes (run demo_env [demo_load, FetchDone 0 (Inr ''h1 {}''), FileChanged demo_key,
       FetchDone 1 (Inl ReadFailed)] new_Themes) = [] \<and>
   listeners (run demo_env [demo_load, FetchDone 0 (Inr ''h1 {}''), FileChanged demo_key,
       FetchDone 1 (Inl ReadFailed)] new_Themes) = [\<lparr>lid = 1, kind = DidDelete, watched = demo_key\<rparr>] \<and>
   refreshes (run demo_env [demo_load, FetchDone 0 (Inr ''h1 {}''), FileChanged demo_key,
       FetchDone 1 (Inl ReadFailed)] new_Themes) = 0"
proof -
  have a0: "run demo_env [demo_load, demo_load, FetchDone 0 (Inr ''h1 {}''), FileDeleted demo_key] new_Themes
      = fileDeleted demo_key (fetchDone demo_env 0 (Inr ''h1 {}'')
          (run demo_env [demo_load, demo_load] new_Themes))"
    by (simp add: run_def)
  have a1: "run demo_env [demo_load, demo_load, FetchDone 0 (Inr ''h1 {}''), FileDeleted demo_key,
        FetchDone 1 (Inr ''h2 {}'')] new_Themes
      = fetchDone demo_env 1 (Inr ''h2 {}'') (fileDeleted demo_key (fetchDone demo_env 0 (Inr ''h1 {}'')
          (run demo_env [demo_load, demo_load] new_Themes)))"
    by (simp add: run_def)
  have b1: "run demo_env [demo_load, FetchDone 0 (Inr ''h1 {}''), FileDeleted demo_key,
        FileChanged demo_key, FetchDone 1 (Inr ''h2 {}'')] new_Themes
      = fetchDone demo_env 1 (Inr ''h2 {}'') (fileChanged demo_key
          (run demo_env [demo_load, FetchDone 0 (Inr ''h1 {}''), FileDeleted demo_key] new_Themes))"
    by (simp add: run_def)
  have c1: "run demo_env [demo_load, FetchDone 0 (Inr ''h1 {}''), FileChanged demo_key,
       FetchDone 1 (Inl ReadFailed)] new_Themes
      = fetchDone demo_env 1 (Inl ReadFailed)
          (run demo_env [demo_load, FetchDone 0 (Inr ''h1 {}''), FileChanged demo_key] new_Themes)"
    by (simp add: run_def)
  have "map_get (observedThemes (run demo_env [demo_load, demo_load, FetchDone 0 (Inr ''h1 {}''),
       FileDeleted demo_key] new_Themes)) demo_key = None"
    unfolding a0 demo_run_load2
    by (simp add: fetchDone_def registerTheme_resume_def demo_pattern demo_classify settle_def
        demo_theme_def Let_def fileDeleted_def fire_def onDidDelete_handler_def dispose_listener_def
        map_delete_def)
  moreover have "map_get (observedThemes (run demo_env [demo_load, demo_load, FetchDone 0 (Inr ''h1 {}''),
       FileDeleted demo_key, FetchDone 1 (Inr ''h2 {}'')] new_Themes)) demo_key
     = Some (demo_theme ''h2 {}'' 2)"
    unfolding a1 demo_run_load2
    by (simp add: fetchDone_def registerTheme_resume_def demo_pattern demo_classify settle_def
        demo_theme_def Let_def fileDeleted_def fire_def onDidDelete_handler_def dispose_listener_def
        map_delete_def numeral_2_eq_2)
  moreover have "map_get (observedThemes (run demo_env [demo_load, FetchDone 0 (Inr ''h1 {}''),
       FileDeleted demo_key] new_Themes)) demo_key = None"
    by (simp add: demo_run_deleted)
  moreover have "map_get (observedThemes (run demo_env [demo_load, FetchDone 0 (Inr ''h1 {}''),
       FileDeleted demo_key, FileChanged demo_key, FetchDone 1 (Inr ''h2 {}'')] new_Themes)) demo_key
     = Some (demo_theme ''h2 {}'' 2)"
    unfolding b1 demo_run_deleted
    by (simp add: fetchDone_def registerTheme_resume_def demo_pattern demo_classify settle_def
        demo_theme_def Let_def fileChanged_def fire_def onDidChange_handler_def dispose_listener_def
        map_delete_def registerTheme_def numeral_2_eq_2)
  moreover have "observedThemes (run demo_env [demo_load, FetchDone 0 (Inr ''h1 {}''), FileChanged demo_key,
       FetchDone 1 (Inl ReadFailed)] new_Themes) = []"
    and "listeners (run demo_env [demo_load, FetchDone 0 (Inr ''h1 {}''), FileChanged demo_key,
       FetchDone 1 (Inl ReadFailed)] new_Themes) = [\<lparr>lid = 1, kind = DidDelete, watched = demo_key\<rparr>]"
    and "refreshes (run demo_env [demo_load, FetchDone 0 (Inr ''h1 {}''), FileChanged demo_key,
       FetchDone 1 (Inl ReadFailed)] new_Themes) = 0"
    unfolding c1 demo_run_changed
    by (simp_all add: fetchDone_def settle_def Let_def)
  ultimately show ?thesis by simp
qed

lemma normalize_entry_grows: "set acc \<subseteq> set (normalize_entry e root r acc)"
  by (auto simp: normalize_entry_def Let_def set_set_add split: conf_entry.splits option.splits)

lemma fold_normalize_grows: "set acc \<subseteq> set (fold (normalize_entry e root) rs acc)"
proof (induction rs arbitrary: acc)
  case Nil
  show ?case by simp
next
  case (Cons r rs)
  have "set acc \<subseteq> set (normalize_entry e root r acc)"
    by (rule normalize_entry_grows)
  also have "\<dots> \<subseteq> set (fold (normalize_entry e root) rs (normalize_entry e root r acc))"
    by (rule Cons.IH)
  finally show ?case by simp
qed

lemma normalize_entry_adds:
  "normalize_entry e root r [] = [x] \<Longrightarrow> normalize_entry e root r acc = set_add x acc"
  by (auto simp: normalize_entry_def Let_def set_add_def split: conf_entry.splits option.splits if_splits)

lemma normalizePaths_has_key:
  assumes "r \<in> set paths" and "normalizePaths e [r] root = [k]"
  shows "k \<in> set (normalizePaths e paths root)"
proof -
  from assms(2) have one: "normalize_entry e root r [] = [k]"
    by (simp add: normalizePaths_def)
  have "k \<in> set (fold (normalize_entry e root) rs acc)" if "r \<in> set rs" for rs acc
    using that
  proof (induction rs arbitrary: acc)
    case Nil
    then show ?case by simp
  next
    case (Cons a rs)
    show ?case
    proof (cases "a = r")
      case True
      have "k \<in> set (normalize_entry e root r acc)"
        by (simp add: normalize_entry_adds [OF one] set_set_add)
      with fold_normalize_grows [of "normalize_entry e root r acc" e root rs] True
      show ?thesis by auto
    next
      case False
      with Cons.prems have "r \<in> set rs" by simp
      then show ?thesis by (simp add: Cons.IH)
    qed
  qed
  with assms(1) show ?thesis by (simp add: normalizePaths_def)
qed

lemma normalizePaths_key_once:
  assumes "r \<in> set paths" and "normalizePaths e [r] root = [k]"
  shows "count_list (normalizePaths e paths root) k = 1"
  using distinct_normalizePaths normalizePaths_has_key [OF assms]
  by (rule count_list_distinct)

lemma normalize_same_key:
  assumes "normalizePaths e [r1] root = [k]" and "normalizePaths e [r2] root = [k]"
  shows "normalizePaths e [r1, r2] root = [k]"
proof -
  have grow: "normalize_entry e root r acc = acc \<or> (\<exists>x. normalize_entry e root r acc = set_add x acc)"
    for r acc
    by (auto simp: normalize_entry_def Let_def split: conf_entry.splits option.splits)
  have indep: "normalize_entry e root r [] = [x] \<Longrightarrow> normalize_entry e root r acc = set_add x acc"
    for r x acc
    by (auto simp: normalize_entry_def Let_def set_add_def split: conf_entry.splits option.splits if_splits)
  from assms(1) have "normalize_entry e root r1 [] = [k]"
    by (simp add: normalizePaths_def)
  moreover from assms(2) have "normalize_entry e root r2 [] = [k]"
    by (simp add: normalizePaths_def)
  then have "normalize_entry e root r2 [k] = set_add k [k]"
    by (rule indep)
  ultimately show ?thesis
    by (simp add: normalizePaths_def set_add_def)
qed

text \<open>
  Claim C8. \<open>normalizePaths\<close> returns a list without duplicates, and two references
  that normalise to the same key give that key once, as does any list of references
  with one that normalises to the key. The map of every reachable state
  has at most one entry per key, and when a resolution of a key completes the map has
  exactly one entry for it, however often the key was resolved before.
\<close>

theorem one_entry_per_key:
  "distinct (normalizePaths e paths root) \<and>
   (normalizePaths e [r1] root = [k] \<and> normalizePaths e [r2] root = [k] \<longrightarrow>
      normalizePaths e [r1, r2] root = [k]) \<and>
   (r1 \<in> set paths \<and> normalizePaths e [r1] root = [k] \<longrightarrow>
      count_list (normalizePaths e paths root) k = 1) \<and>
   distinct (map fst (observedThemes (run e evs new_Themes))) \<and>
   length (filter (\<lambda>x. fst x = k) (observedThemes (run e evs new_Themes))) \<le> 1 \<and>
   (find (\<lambda>t. promise t = p) (inFlight (run e evs new_Themes)) = Some t \<longrightarrow>
      length (filter (\<lambda>x. fst x = key t)
        (observedThemes (fetchDone e p (Inr content) (run e evs new_Themes)))) = 1)"
proof (intro conjI impI)
  show "distinct (normalizePaths e paths root)"
    by (rule distinct_normalizePaths)
  show "normalizePaths e [r1, r2] root = [k]"
    if "normalizePaths e [r1] root = [k] \<and> normalizePaths e [r2] root = [k]"
    using that by (simp add: normalize_same_key)
  show "count_list (normalizePaths e paths root) k = 1"
    if "r1 \<in> set paths \<and> normalizePaths e [r1] root = [k]"
    using that normalizePaths_key_once [of r1 paths e root k] by simp
  show d: "distinct (map fst (observedThemes (run e evs new_Themes)))"
    by (rule distinct_keys_reachable)
  then show "length (filter (\<lambda>x. fst x = k) (observedThemes (run e evs new_Themes))) \<le> 1"
    by (rule distinct_keys_count)
  show "length (filter (\<lambda>x. fst x = key t)
        (observedThemes (fetchDone e p (Inr content) (run e evs new_Themes)))) = 1"
    if f: "find (\<lambda>t. promise t = p) (inFlight (run e evs new_Themes)) = Some t"
  proof -
    have "fetchDone e p (Inr content) (run e evs new_Themes) = run e (evs @ [FetchDone p (Inr content)]) new_Themes"
      by (simp add: run_def)
    then have "distinct (map fst (observedThemes (fetchDone e p (Inr content) (run e evs new_Themes))))"
      by (simp add: distinct_keys_reachable)
    moreover have "map_get (observedThemes (fetchDone e p (Inr content) (run e evs new_Themes))) (key t)
        = Some (stored_theme e (run e evs new_Themes) (key t) content)"
      using f by (rule fetchDone_ok_stored)
    ultimately show ?thesis by (rule distinct_keys_count_one)
  qed
qed

lemma demo_normalize2:
  "normalizePaths demo_env [Str ''theme.css''] (Some demo_root) = [demo_key]"
  "normalizePaths demo_env [Str ''./themes/../theme.css''] (Some demo_root) = [demo_key]"
  by (simp_all add: normalizePaths_def normalize_entry_def demo_env_def
      demo_root_def demo_key_def isRemotePath_def startsWith_def posix_resolve_def posix_relative_def
      segments_def set_add_def demo_process_def)

theorem one_entry_per_key_witness:
  "Str ''theme.css'' \<noteq> Str ''./themes/../theme.css'' \<and>
   normalizePaths demo_env [Str ''theme.css''] (Some demo_root) = [demo_key] \<and>
   normalizePaths demo_env [Str ''./themes/../theme.css''] (Some demo_root) = [demo_key] \<and>
   normalizePaths demo_env [Str ''theme.css'', Str ''./themes/../theme.css''] (Some demo_root) = [demo_key] \<and>
   find (\<lambda>t. promise t = 1) (inFlight (run demo_env [LoadStyles demo_conf2 (Some demo_root),
       LoadStyles demo_conf2 (Some demo_root), FetchDone 0 (Inr ''h1 {}'')] new_Themes))
     = Some \<lparr>promise = 1, key = demo_key, caller = FromLoadStyles\<rparr> \<and>
   length (filter (\<lambda>x. fst x = demo_key)
     (observedThemes (fetchDone demo_env 1 (Inr ''h2 {}'')
        (run demo_env [LoadStyles demo_conf2 (Some demo_root), LoadStyles demo_conf2 (Some demo_root),
           FetchDone 0 (Inr ''h1 {}'')] new_Themes)))) = 1"
proof -
  have p: "getPathsFromConf demo_env demo_conf2 (Some demo_root) = [demo_key]"
    using one_entry_per_key [of demo_env _ _ "Str ''theme.css''" demo_key "Str ''./themes/../theme.css''"]
    by (simp add: getPathsFromConf_def demo_conf2_def demo_normalize2)
  have "run demo_env [LoadStyles demo_conf2 (Some demo_root), LoadStyles demo_conf2 (Some demo_root),
       FetchDone 0 (Inr ''h1 {}'')] new_Themes
     = fetchDone demo_env 0 (Inr ''h1 {}'') (run demo_env [demo_load, demo_load] new_Themes)"
    by (simp add: run_def demo_load_def loadStyles_def p demo_paths)
  then have f: "find (\<lambda>t. promise t = 1) (inFlight (run demo_env [LoadStyles demo_conf2 (Some demo_root),
       LoadStyles demo_conf2 (Some demo_root), FetchDone 0 (Inr ''h1 {}'')] new_Themes))
     = Some \<lparr>promise = 1, key = demo_key, caller = FromLoadStyles\<rparr>"
    unfolding demo_run_load2
    by (simp add: fetchDone_def registerTheme_resume_def demo_pattern demo_classify settle_def Let_def)
  from one_entry_per_key [of demo_env _ _ "Str ''theme.css''" demo_key "Str ''./themes/../theme.css''"
      "[LoadStyles demo_conf2 (Some demo_root), LoadStyles demo_conf2 (Some demo_root), FetchDone 0 (Inr ''h1 {}'')]"
      1 "\<lparr>promise = 1, key = demo_key, caller = FromLoadStyles\<rparr>" "''h2 {}''"] f
  show ?thesis by (simp add: demo_normalize2)
qed

section \<open>Properties of the workspace proxy server\<close>

lemma get_handler_no_uri:
  "Uri_with folderUri url = None \<Longrightarrow> get_handler extname fs folderUri (Some url) = []"
  by (simp add: get_handler_def)



lemma get_handler_directory:
  "Uri_with folderUri url = Some u \<Longrightarrow> stat fs u = Inr st \<Longrightarrow>
   ftype st AND FileType_Directory \<noteq> 0 \<Longrightarrow>
   get_handler extname fs folderUri (Some url) =
     type_calls extname url @ [Header ''Content-Length'' (NumberString (fsize st)),
       Header ''Last-Modified'' (UTCString (mtime st))] @ not_found"
  by (simp add: get_handler_def Let_def type_calls_def)

lemma status_of_append: "status_of (xs @ ys) = (case status_of ys of Some n \<Rightarrow> Some n | None \<Rightarrow> status_of xs)"
  by (induction xs) (auto split: option.splits)

lemma header_of_append: "header_of (xs @ ys) h = (case header_of ys h of Some n \<Rightarrow> Some n | None \<Rightarrow> header_of xs h)"
  by (induction xs) (auto split: option.splits)


lemma body_of_type_calls: "body_of (type_calls extname url @ ys) = body_of ys"
  by (simp add: type_calls_def)


lemma Send_notin_type_calls: "Send b \<notin> set (type_calls extname url)"
  by (simp add: type_calls_def)

lemma demo_uris:
  "Uri_with demo_folder theme_css = Some (demo_uri ''/theme.css'')"
  "Uri_with demo_folder missing_css = Some (demo_uri ''/missing.css'')"
  "Uri_with demo_folder assets_dir = Some (demo_uri ''/assets'')"
  "Uri_with demo_folder \<lparr>pathname = ''//theme.css'', search = [], hash = []\<rparr> = None"
  by (simp_all add: Uri_with_def referenceResolution_def demo_folder_def demo_uri_def
      theme_css_def missing_css_def assets_dir_def)



text \<open>
  Claim C10. A GET request whose \<open>Uri\<close> is built and whose resource stats successfully
  as a directory is answered with 404 and the body \<open>Not found\<close>; no file content is
  sent, while the \<open>Content-Length\<close> and \<open>Last-Modified\<close> headers taken from the stat of
  the directory have been set on the response before.
\<close>

theorem proxy_directory_not_served:
  assumes "Uri_with folderUri url = Some u" and "stat fs u = Inr st"
    and "ftype st AND FileType_Directory \<noteq> 0"
  shows "status_of (get_handler extname fs folderUri (Some url)) = Some 404 \<and>
     body_of (get_handler extname fs folderUri (Some url)) = Some (Text ''Not found'') \<and>
     (\<forall>content. Send (Buffer content) \<notin> set (get_handler extname fs folderUri (Some url))) \<and>
     header_of (get_handler extname fs folderUri (Some url)) ''Content-Length'' = Some (NumberString (fsize st)) \<and>
     header_of (get_handler extname fs folderUri (Some url)) ''Last-Modified'' = Some (UTCString (mtime st))"
proof -
  have r: "get_handler extname fs folderUri (Some url) =
     type_calls extname url @ [Header ''Content-Length'' (NumberString (fsize st)),
       Header ''Last-Modified'' (UTCString (mtime st))] @ not_found"
    by (rule get_handler_directory [OF assms])
  have "status_of (get_handler extname fs folderUri (Some url)) = Some 404"
    unfolding r by (simp add: status_of_append not_found_def)
  moreover have "body_of (get_handler extname fs folderUri (Some url)) = Some (Text ''Not found'')"
    unfolding r by (simp add: body_of_type_calls not_found_def)
  moreover have "\<forall>content. Send (Buffer content) \<notin> set (get_handler extname fs folderUri (Some url))"
    unfolding r by (simp add: Send_notin_type_calls not_found_def)
  moreover have "header_of (get_handler extname fs folderUri (Some url)) ''Content-Length'' = Some (NumberString (fsize st))"
    unfolding r by (simp add: header_of_append not_found_def)
  moreover have "header_of (get_handler extname fs folderUri (Some url)) ''Last-Modified'' = Some (UTCString (mtime st))"
    unfolding r by (simp add: header_of_append not_found_def)
  ultimately show ?thesis by blast
qed

theorem proxy_directory_not_served_witness:
  "Uri_with demo_folder assets_dir = Some (demo_uri ''/assets'') \<and>
   stat demo_fs (demo_uri ''/assets'') = Inr \<lparr>ftype = 2, fsize = 4096, mtime = 2000\<rparr> \<and>
   ftype \<lparr>ftype = 2, fsize = 4096, mtime = 2000\<rparr> AND FileType_Directory \<noteq> 0 \<and>
   status_of (get_handler demo_extname demo_fs demo_folder (Some assets_dir)) = Some 404 \<and>
   header_of (get_handler demo_extname demo_fs demo_folder (Some assets_dir)) ''Content-Length''
     = Some (NumberString 4096)"
proof -
  have u: "Uri_with demo_folder assets_dir = Some (demo_uri ''/assets'')"
    by (rule demo_uris)
  have s: "stat demo_fs (demo_uri ''/assets'') = Inr \<lparr>ftype = 2, fsize = 4096, mtime = 2000\<rparr>"
    by (simp add: demo_fs_def demo_uri_def)
  have d: "ftype \<lparr>ftype = 2, fsize = 4096, mtime = 2000\<rparr> AND FileType_Directory \<noteq> 0"
    by (simp add: FileType_Directory_def)
  from proxy_directory_not_served [OF u s d, of demo_extname] u s d show ?thesis by simp
qed

end
